theory Spec2Isabelle
  imports Complex_Main "HOL-Library.Word"
begin

unbundle bit_operations_syntax

chapter \<open>The tile-world simulation: model\<close>

text \<open>
  A shallow embedding of the browser prototype. JavaScript numbers are modelled as
  mathematical numbers: \<^typ>\<open>real\<close> for positions, velocities, timers and health,
  \<^typ>\<open>int\<close> for tile coordinates and loop counters (the results of
  \<^verbatim>\<open>Math.floor\<close>). Rounding of IEEE doubles is therefore outside the model.
  The module-level mutable objects (\<^verbatim>\<open>world\<close>, \<^verbatim>\<open>player\<close>,
  \<^verbatim>\<open>gameState\<close>, \<^verbatim>\<open>camera\<close>, \<^verbatim>\<open>mouse\<close>) are passed
  explicitly and returned updated. Two revisions of the program are present in the
  sources: the full program (day/night, weather, health, inventory, biomes) and an earlier
  \<^verbatim>\<open>main.js\<close>; where they differ, the definitions of the earlier file carry the
  suffix \<open>_main\<close>.
\<close>

section \<open>Configuration\<close>

definition TILE_SIZE :: real where "TILE_SIZE = 24"
definition WORLD_WIDTH :: int where "WORLD_WIDTH = 200"
definition WORLD_HEIGHT :: int where "WORLD_HEIGHT = 120"
definition GRAVITY :: real where "GRAVITY = 0.6"
definition TERMINAL_VELOCITY :: real where "TERMINAL_VELOCITY = 18"
definition MOVE_ACCEL :: real where "MOVE_ACCEL = 0.9"
definition AIR_ACCEL :: real where "AIR_ACCEL = 0.5"
definition FRICTION :: real where "FRICTION = 0.85"
definition JUMP_VELOCITY :: real where "JUMP_VELOCITY = - 12.5"
definition MAX_RUN_SPEED :: real where "MAX_RUN_SPEED = 5.2"
definition REACH :: real where "REACH = 6"
definition DAY_NIGHT_CYCLE_DURATION :: real where "DAY_NIGHT_CYCLE_DURATION = 600"
definition DAY_PORTION :: real where "DAY_PORTION = 0.7"

section \<open>Tiles and the tile grid\<close>

datatype tile = AIR | GRASS | DIRT | STONE | WOOD | SAND | GLASS | TORCH | BRICK

text \<open>
  \<^verbatim>\<open>world\<close> is an array of \<open>WORLD_HEIGHT\<close> rows, each an array of
  \<open>WORLD_WIDTH\<close> tiles; \<^verbatim>\<open>world[y][x]\<close> is \<open>w ! nat y ! nat x\<close>.
\<close>

type_synonym world = "tile list list"

definition wellFormed :: "world \<Rightarrow> bool" where
  "wellFormed w \<longleftrightarrow>
     int (length w) = WORLD_HEIGHT \<and> list_all (\<lambda>row. int (length row) = WORLD_WIDTH) w"

text \<open>The array as allocated at load time: every cell is \<open>AIR\<close>.\<close>

definition emptyWorld :: world where
  "emptyWorld = replicate (nat WORLD_HEIGHT) (replicate (nat WORLD_WIDTH) AIR)"

definition inBounds :: "int \<Rightarrow> int \<Rightarrow> bool" where
  "inBounds tx ty \<longleftrightarrow> tx \<ge> 0 \<and> ty \<ge> 0 \<and> tx < WORLD_WIDTH \<and> ty < WORLD_HEIGHT"

definition isSolid :: "tile \<Rightarrow> bool" where
  "isSolid tileId \<longleftrightarrow> tileId \<noteq> AIR"

definition getTile :: "world \<Rightarrow> int \<Rightarrow> int \<Rightarrow> tile" where
  "getTile w tx ty = (if \<not> inBounds tx ty then STONE else w ! nat ty ! nat tx)"

definition setTile :: "world \<Rightarrow> int \<Rightarrow> int \<Rightarrow> tile \<Rightarrow> world" where
  "setTile w tx ty tileId =
     (if \<not> inBounds tx ty then w else w[nat ty := (w ! nat ty)[nat tx := tileId]])"

section \<open>Collision resolution\<close>

text \<open>The object returned by \<^verbatim>\<open>aabbVsTiles\<close>: \<^verbatim>\<open>{x, y, grounded, hitX, hitY}\<close>.\<close>

record sweep =
  res_x :: real
  res_y :: real
  grounded :: bool
  hitX :: bool
  hitY :: bool

text \<open>
  The inner loops: \<^verbatim>\<open>for (let ty = top; ty <= bottom; ty++)\<close> over one tile
  column, and \<^verbatim>\<open>for (let tx = left; tx <= right; tx++)\<close> over one tile row; each
  stops at the first solid tile.
\<close>

function columnCollides :: "world \<Rightarrow> int \<Rightarrow> int \<Rightarrow> int \<Rightarrow> bool" where
  "columnCollides w tx ty bottom =
     (if ty \<le> bottom then
        (if isSolid (getTile w tx ty) then True else columnCollides w tx (ty + 1) bottom)
      else False)"
  by pat_completeness auto
termination
  by (relation "measure (\<lambda>(w, tx, ty, bottom). nat (bottom + 1 - ty))") auto

declare columnCollides.simps [simp del]

function rowCollides :: "world \<Rightarrow> int \<Rightarrow> int \<Rightarrow> int \<Rightarrow> bool" where
  "rowCollides w ty tx right =
     (if tx \<le> right then
        (if isSolid (getTile w tx ty) then True else rowCollides w ty (tx + 1) right)
      else False)"
  by pat_completeness auto
termination
  by (relation "measure (\<lambda>(w, ty, tx, right). nat (right + 1 - tx))") auto

declare rowCollides.simps [simp del]

text \<open>
  The horizontal sweep, \<^verbatim>\<open>for (let moved = 0; moved < Math.abs(dx); moved += Math.abs(step))\<close>.
  \<open>Inl r\<close> is the early \<^verbatim>\<open>return\<close> on a collision, \<open>Inr newX\<close> the value
  of \<^verbatim>\<open>newX\<close> when the loop ends. The loop is only entered under
  \<^verbatim>\<open>if (dx !== 0)\<close>; the test is repeated in the loop condition, where it makes the
  increment \<open>\<bar>step\<bar> = min \<bar>dx\<bar> TILE_SIZE\<close> positive.
\<close>

function sweepX :: "world \<Rightarrow> real \<Rightarrow> real \<Rightarrow> real \<Rightarrow> real \<Rightarrow> real \<Rightarrow> real \<Rightarrow> real \<Rightarrow> sweep + real" where
  "sweepX w px py pw ph dx moved newX =
     (if dx \<noteq> 0 \<and> moved < \<bar>dx\<bar> then
        (let dir = sgn dx;
             step = dir * min \<bar>dx\<bar> TILE_SIZE;
             nextX = px + min \<bar>dx\<bar> (moved + \<bar>step\<bar>) * dir;
             left = \<lfloor>(nextX - pw / 2) / TILE_SIZE\<rfloor>;
             right = \<lfloor>(nextX + pw / 2) / TILE_SIZE\<rfloor>;
             top = \<lfloor>(py - ph / 2) / TILE_SIZE\<rfloor>;
             bottom = \<lfloor>(py + ph / 2 - 1) / TILE_SIZE\<rfloor>
         in if columnCollides w (if dir > 0 then right else left) top bottom then
              Inl \<lparr>res_x = (if dir > 0 then of_int right * TILE_SIZE - pw / 2
                              else (of_int left + 1) * TILE_SIZE + pw / 2),
                   res_y = py, grounded = False, hitX = True, hitY = False\<rparr>
            else sweepX w px py pw ph dx (moved + \<bar>step\<bar>) nextX)
      else Inr newX)"
  by pat_completeness auto
termination
proof (relation "measure (\<lambda>(w, px, py, pw, ph, dx, moved, newX).
                    nat \<lceil>(\<bar>dx\<bar> - moved) / min \<bar>dx\<bar> TILE_SIZE\<rceil>)", goal_cases)
  case 1
  show ?case by simp
next
  case (2 w px py pw ph dx moved newX dir step nextX left right top bottom)
  define s where "s = min \<bar>dx\<bar> TILE_SIZE"
  from 2(1) have pos: "0 < s" and lt: "moved < \<bar>dx\<bar>"
    by (auto simp: s_def TILE_SIZE_def)
  from 2(1,2,3) have st: "\<bar>step\<bar> = s"
    by (simp add: s_def abs_mult TILE_SIZE_def)
  have "(\<bar>dx\<bar> - (moved + s)) / s = (\<bar>dx\<bar> - moved) / s - 1"
    using pos by (simp add: field_simps)
  moreover have "0 < (\<bar>dx\<bar> - moved) / s"
    using pos lt by simp
  ultimately have "nat \<lceil>(\<bar>dx\<bar> - (moved + s)) / s\<rceil> < nat \<lceil>(\<bar>dx\<bar> - moved) / s\<rceil>"
    by (simp add: ceiling_diff_one)
  then show ?case
    by (simp add: st s_def)
qed

declare sweepX.simps [simp del]

text \<open>The vertical sweep, with the resolved \<^verbatim>\<open>newX\<close> as its horizontal position.\<close>

function sweepY :: "world \<Rightarrow> real \<Rightarrow> real \<Rightarrow> real \<Rightarrow> real \<Rightarrow> real \<Rightarrow> real \<Rightarrow> real \<Rightarrow> sweep + real" where
  "sweepY w newX py pw ph dy moved newY =
     (if dy \<noteq> 0 \<and> moved < \<bar>dy\<bar> then
        (let dir = sgn dy;
             step = dir * min \<bar>dy\<bar> TILE_SIZE;
             nextY = py + min \<bar>dy\<bar> (moved + \<bar>step\<bar>) * dir;
             left = \<lfloor>(newX - pw / 2) / TILE_SIZE\<rfloor>;
             right = \<lfloor>(newX + pw / 2) / TILE_SIZE\<rfloor>;
             top = \<lfloor>(nextY - ph / 2) / TILE_SIZE\<rfloor>;
             bottom = \<lfloor>(nextY + ph / 2 - 1) / TILE_SIZE\<rfloor>
         in if rowCollides w (if dir > 0 then bottom else top) left right then
              (if dir > 0 then
                 Inl \<lparr>res_x = newX, res_y = of_int bottom * TILE_SIZE - ph / 2,
                      grounded = True, hitX = False, hitY = True\<rparr>
               else
                 Inl \<lparr>res_x = newX, res_y = (of_int top + 1) * TILE_SIZE + ph / 2,
                      grounded = False, hitX = False, hitY = True\<rparr>)
            else sweepY w newX py pw ph dy (moved + \<bar>step\<bar>) nextY)
      else Inr newY)"
  by pat_completeness auto
termination
proof (relation "measure (\<lambda>(w, newX, py, pw, ph, dy, moved, newY).
                    nat \<lceil>(\<bar>dy\<bar> - moved) / min \<bar>dy\<bar> TILE_SIZE\<rceil>)", goal_cases)
  case 1
  show ?case by simp
next
  case (2 w newX py pw ph dy moved newY dir step nextY left right top bottom)
  define s where "s = min \<bar>dy\<bar> TILE_SIZE"
  from 2(1) have pos: "0 < s" and lt: "moved < \<bar>dy\<bar>"
    by (auto simp: s_def TILE_SIZE_def)
  from 2(1,2,3) have st: "\<bar>step\<bar> = s"
    by (simp add: s_def abs_mult TILE_SIZE_def)
  have "(\<bar>dy\<bar> - (moved + s)) / s = (\<bar>dy\<bar> - moved) / s - 1"
    using pos by (simp add: field_simps)
  moreover have "0 < (\<bar>dy\<bar> - moved) / s"
    using pos lt by simp
  ultimately have "nat \<lceil>(\<bar>dy\<bar> - (moved + s)) / s\<rceil> < nat \<lceil>(\<bar>dy\<bar> - moved) / s\<rceil>"
    by (simp add: ceiling_diff_one)
  then show ?case
    by (simp add: st s_def)
qed

declare sweepY.simps [simp del]

definition aabbVsTiles :: "world \<Rightarrow> real \<Rightarrow> real \<Rightarrow> real \<Rightarrow> real \<Rightarrow> real \<Rightarrow> real \<Rightarrow> sweep" where
  "aabbVsTiles w px py pw ph dx dy =
     (let newX = px + dx; newY = py + dy
      in case (if dx \<noteq> 0 then sweepX w px py pw ph dx 0 newX else Inr newX) of
           Inl r \<Rightarrow> r
         | Inr newX' \<Rightarrow>
             (case (if dy \<noteq> 0 then sweepY w newX' py pw ph dy 0 newY else Inr newY) of
                Inl r \<Rightarrow> r
              | Inr newY' \<Rightarrow>
                  \<lparr>res_x = newX', res_y = newY', grounded = False, hitX = False, hitY = False\<rparr>))"

section \<open>World generation\<close>

text \<open>
  \<^verbatim>\<open>mulberry32(a)\<close> returns a closure over the number \<open>a\<close>; one call of the
  closure is a step from \<open>a\<close> to the returned value and the new \<open>a\<close>. The closure
  adds \<^verbatim>\<open>0x6d2b79f5\<close> to \<open>a\<close> as a number (no wrap-around), and the bitwise
  operators and \<^verbatim>\<open>Math.imul\<close> work on its low 32 bits: \<^verbatim>\<open>>>>\<close> is
  \<^const>\<open>drop_bit\<close> on a 32-bit word, \<^verbatim>\<open>>>> 0\<close> reads the word as unsigned.
  The seed is an integer, and the model is exact as long as \<open>a\<close> stays below \<open>2^53\<close> in
  magnitude, where the addition of doubles is exact; one generation makes fewer than 1500
  calls.
\<close>

definition mulberry32 :: "int \<Rightarrow> real \<times> int" where
  "mulberry32 a =
     (let a' = a + 0x6d2b79f5;
          t0 = (word_of_int a' :: 32 word);
          t1 = (t0 XOR drop_bit 15 t0) * (t0 OR 1);
          t2 = t1 XOR (t1 + (t1 XOR drop_bit 7 t1) * (t1 OR 61))
      in (real_of_int (uint (t2 XOR drop_bit 14 t2)) / 4294967296, a'))"

text \<open>\<^verbatim>\<open>Math.sign\<close> of a number, as an integer.\<close>

definition sign :: "real \<Rightarrow> int" where
  "sign v = (if v > 0 then 1 else if v < 0 then - 1 else 0)"

text \<open>The height map: a clamped random walk, two calls of \<^verbatim>\<open>rand()\<close> per column.\<close>

function genHeights :: "int \<Rightarrow> int \<Rightarrow> int \<Rightarrow> int list \<Rightarrow> int list \<times> int" where
  "genHeights x h a heights =
     (if x < WORLD_WIDTH then
        (let (r1, a1) = mulberry32 a;
             step = (r1 - 0.5) * 2;
             (r2, a2) = mulberry32 a1;
             h1 = h + sign step * (if r2 < 0.55 then 1 else 0);
             h2 = max 20 (min (WORLD_HEIGHT - 15) h1)
         in genHeights (x + 1) h2 a2 (heights @ [h2]))
      else (heights, a))"
  by pat_completeness auto
termination
  by (relation "measure (\<lambda>(x, h, a, heights). nat (WORLD_WIDTH - x))") auto

declare genHeights.simps [simp del]

datatype biome = Forest | Desert

text \<open>Biome runs of 20 to 49 columns, alternating, starting with forest.\<close>

function genBiomes :: "int \<Rightarrow> biome \<Rightarrow> int \<Rightarrow> int \<Rightarrow> biome list \<Rightarrow> biome list \<times> int" where
  "genBiomes x currentBiome biomeLength a biomes =
     (if x < WORLD_WIDTH then
        (let (currentBiome1, biomeLength1, a1) =
               (if biomeLength \<le> 0 then
                  (let (r, a') = mulberry32 a
                   in (if currentBiome = Forest then Desert else Forest, 20 + \<lfloor>r * 30\<rfloor>, a'))
                else (currentBiome, biomeLength, a))
         in genBiomes (x + 1) currentBiome1 (biomeLength1 - 1) a1 (biomes @ [currentBiome1]))
      else (biomes, a))"
  by pat_completeness auto
termination
  by (relation "measure (\<lambda>(x, c, l, a, biomes). nat (WORLD_WIDTH - x))") auto

declare genBiomes.simps [simp del]

text \<open>
  Direct array accesses \<^verbatim>\<open>world[y][x]\<close> and \<^verbatim>\<open>world[y][x] = t\<close>, as the
  generator makes them (without the bounds test of \<open>getTile\<close> and \<open>setTile\<close>). Every
  access of the generator has \<open>0 \<le> y < WORLD_HEIGHT\<close> and \<open>0 \<le> x < WORLD_WIDTH\<close>: the
  loops bound their counters, and \<^verbatim>\<open>treeY >= 0\<close> is tested.
\<close>

definition cell :: "world \<Rightarrow> int \<Rightarrow> int \<Rightarrow> tile" where
  "cell w y x = w ! nat y ! nat x"

definition put :: "world \<Rightarrow> int \<Rightarrow> int \<Rightarrow> tile \<Rightarrow> world" where
  "put w y x t = w[nat y := (w ! nat y)[nat x := t]]"

text \<open>The tile the layering loop writes at depth \<open>y\<close> of a column with surface \<open>groundY\<close>.\<close>

definition layerTile :: "int \<Rightarrow> biome \<Rightarrow> int \<Rightarrow> tile" where
  "layerTile groundY biome y =
     (if y > groundY + 20 then STONE
      else if y > groundY + 3 then DIRT
      else if y = groundY then (if biome = Desert then SAND else GRASS)
      else if y > groundY \<and> y \<le> groundY + 3 then (if biome = Desert then SAND else DIRT)
      else AIR)"

function layerColumn :: "int \<Rightarrow> biome \<Rightarrow> int \<Rightarrow> int \<Rightarrow> world \<Rightarrow> world" where
  "layerColumn groundY biome x y w =
     (if y < WORLD_HEIGHT then
        layerColumn groundY biome x (y + 1) (put w y x (layerTile groundY biome y))
      else w)"
  by pat_completeness auto
termination
  by (relation "measure (\<lambda>(groundY, biome, x, y, w). nat (WORLD_HEIGHT - y))") auto

declare layerColumn.simps [simp del]

text \<open>
  A stone patch: \<^verbatim>\<open>for (let xx = x; xx < x + sw && xx < WORLD_WIDTH; xx++)\<close> inside
  \<^verbatim>\<open>for (let yy = sy; yy < sy + sh && yy < WORLD_HEIGHT; yy++)\<close>.
\<close>

function patchRow :: "int \<Rightarrow> int \<Rightarrow> int \<Rightarrow> int \<Rightarrow> world \<Rightarrow> world" where
  "patchRow x sw yy xx w =
     (if xx < x + sw \<and> xx < WORLD_WIDTH then
        patchRow x sw yy (xx + 1) (if cell w yy xx \<noteq> AIR then put w yy xx STONE else w)
      else w)"
  by pat_completeness auto
termination
  by (relation "measure (\<lambda>(x, sw, yy, xx, w). nat (WORLD_WIDTH - xx))") auto

declare patchRow.simps [simp del]

function patchRows :: "int \<Rightarrow> int \<Rightarrow> int \<Rightarrow> int \<Rightarrow> int \<Rightarrow> world \<Rightarrow> world" where
  "patchRows x sy sh sw yy w =
     (if yy < sy + sh \<and> yy < WORLD_HEIGHT then
        patchRows x sy sh sw (yy + 1) (patchRow x sw yy x w)
      else w)"
  by pat_completeness auto
termination
  by (relation "measure (\<lambda>(x, sy, sh, sw, yy, w). nat (WORLD_HEIGHT - yy))") auto

declare patchRows.simps [simp del]

text \<open>A trunk: \<^verbatim>\<open>for (let ty = 0; ty < treeHeight; ty++)\<close>.\<close>

function growTree :: "int \<Rightarrow> int \<Rightarrow> int \<Rightarrow> int \<Rightarrow> world \<Rightarrow> world" where
  "growTree groundY x treeHeight ty w =
     (if ty < treeHeight then
        (let treeY = groundY - ty - 1
         in growTree groundY x treeHeight (ty + 1) (if treeY \<ge> 0 then put w treeY x WOOD else w))
      else w)"
  by pat_completeness auto
termination
  by (relation "measure (\<lambda>(groundY, x, treeHeight, ty, w). nat (treeHeight - ty))") auto

declare growTree.simps [simp del]

text \<open>
  The body of the main loop for column \<open>x\<close>: layering, then a stone patch with
  probability 0.1, then (forest only; \<^verbatim>\<open>&&\<close> does not call \<^verbatim>\<open>rand()\<close> in
  a desert) a trunk with probability 0.03. The state is the grid and the generator's \<open>a\<close>.
\<close>

definition genColumn :: "int list \<Rightarrow> biome list \<Rightarrow> int \<Rightarrow> world \<times> int \<Rightarrow> world \<times> int" where
  "genColumn heights biomes x st =
     (let (w, a) = st;
          groundY = heights ! nat x;
          biome = biomes ! nat x;
          w1 = layerColumn groundY biome x 0 w;
          (r, a1) = mulberry32 a;
          (w2, a2) =
            (if r < 0.1 then
               (let (r1, b1) = mulberry32 a1;
                    sy = groundY + 5 + \<lfloor>r1 * 10\<rfloor>;
                    (r2, b2) = mulberry32 b1;
                    sh = 3 + \<lfloor>r2 * 4\<rfloor>;
                    (r3, b3) = mulberry32 b2;
                    sw = 3 + \<lfloor>r3 * 6\<rfloor>
                in (patchRows x sy sh sw sy w1, b3))
             else (w1, a1))
      in if biome = Forest then
           (let (r4, c1) = mulberry32 a2
            in if r4 < 0.03 then
                 (let (r5, c2) = mulberry32 c1;
                      treeHeight = 5 + \<lfloor>r5 * 3\<rfloor>
                  in (growTree groundY x treeHeight 0 w2, c2))
               else (w2, c1))
         else (w2, a2))"

function genColumns :: "int list \<Rightarrow> biome list \<Rightarrow> int \<Rightarrow> world \<times> int \<Rightarrow> world \<times> int" where
  "genColumns heights biomes x st =
     (if x < WORLD_WIDTH then genColumns heights biomes (x + 1) (genColumn heights biomes x st)
      else st)"
  by pat_completeness auto
termination
  by (relation "measure (\<lambda>(heights, biomes, x, st). nat (WORLD_WIDTH - x))") auto

declare genColumns.simps [simp del]

text \<open>\<^verbatim>\<open>generateWorld(seed)\<close>, from the grid it finds to the grid it leaves.\<close>

definition generateWorld :: "int \<Rightarrow> world \<Rightarrow> world" where
  "generateWorld seed w =
     (let base = \<lfloor>real_of_int WORLD_HEIGHT * 0.55\<rfloor>;
          (heights, a1) = genHeights 0 base seed [];
          (r, a2) = mulberry32 a1;
          biomeLength = 20 + \<lfloor>r * 30\<rfloor>;
          (biomes, a3) = genBiomes 0 Forest biomeLength a2 []
      in fst (genColumns heights biomes 0 (w, a3)))"

subsection \<open>The generator of the earlier \<^verbatim>\<open>main.js\<close>\<close>

text \<open>
  No biomes and no trees, and the stone patch of a column is decided by
  \<^verbatim>\<open>Math.random() < 0.1\<close>, not by the seeded \<^verbatim>\<open>rand()\<close>. The values that
  \<^verbatim>\<open>Math.random()\<close> returns are an input of the model: \<open>mr k\<close> is the value of
  its \<open>k\<close>-th call during the generation.
\<close>

definition layerTile_main :: "int \<Rightarrow> int \<Rightarrow> tile" where
  "layerTile_main groundY y =
     (if y > groundY + 20 then STONE
      else if y > groundY + 3 then DIRT
      else if y = groundY then GRASS
      else if y > groundY \<and> y \<le> groundY + 3 then DIRT
      else AIR)"

function layerColumn_main :: "int \<Rightarrow> int \<Rightarrow> int \<Rightarrow> world \<Rightarrow> world" where
  "layerColumn_main groundY x y w =
     (if y < WORLD_HEIGHT then
        layerColumn_main groundY x (y + 1) (put w y x (layerTile_main groundY y))
      else w)"
  by pat_completeness auto
termination
  by (relation "measure (\<lambda>(groundY, x, y, w). nat (WORLD_HEIGHT - y))") auto

declare layerColumn_main.simps [simp del]

definition genColumn_main :: "int list \<Rightarrow> (nat \<Rightarrow> real) \<Rightarrow> int \<Rightarrow> world \<times> int \<times> nat \<Rightarrow> world \<times> int \<times> nat" where
  "genColumn_main heights mr x st =
     (let (w, a, k) = st;
          groundY = heights ! nat x;
          w1 = layerColumn_main groundY x 0 w
      in if mr k < 0.1 then
           (let (r1, b1) = mulberry32 a;
                sy = groundY + 5 + \<lfloor>r1 * 10\<rfloor>;
                (r2, b2) = mulberry32 b1;
                sh = 3 + \<lfloor>r2 * 4\<rfloor>;
                (r3, b3) = mulberry32 b2;
                sw = 3 + \<lfloor>r3 * 6\<rfloor>
            in (patchRows x sy sh sw sy w1, b3, k + 1))
         else (w1, a, k + 1))"

function genColumns_main :: "int list \<Rightarrow> (nat \<Rightarrow> real) \<Rightarrow> int \<Rightarrow> world \<times> int \<times> nat \<Rightarrow> world \<times> int \<times> nat" where
  "genColumns_main heights mr x st =
     (if x < WORLD_WIDTH then genColumns_main heights mr (x + 1) (genColumn_main heights mr x st)
      else st)"
  by pat_completeness auto
termination
  by (relation "measure (\<lambda>(heights, mr, x, st). nat (WORLD_WIDTH - x))") auto

declare genColumns_main.simps [simp del]

definition generateWorld_main :: "int \<Rightarrow> (nat \<Rightarrow> real) \<Rightarrow> world \<Rightarrow> world" where
  "generateWorld_main seed mr w =
     (let base = \<lfloor>real_of_int WORLD_HEIGHT * 0.55\<rfloor>;
          (heights, a1) = genHeights 0 base seed []
      in fst (genColumns_main heights mr 0 (w, a1, 0)))"

section \<open>Player, environment and the global state\<close>

record player =
  pos_x :: real
  pos_y :: real
  vx :: real
  vy :: real
  width :: real
  height :: real
  onGround :: bool
  wasOnGround :: bool
  facing :: int
  health :: real
  maxHealth :: real
  invulnerableTime :: real
  lastDamageTime :: real

record camera =
  cam_x :: real
  cam_y :: real
  cam_width :: real
  cam_height :: real

record mouse =
  mouse_x :: real
  mouse_y :: real
  mouse_tx :: int
  mouse_ty :: int
  mouse_left :: bool
  mouse_right :: bool

datatype weatherType = Clear | Rain | Storm

record particle =
  part_x :: real
  part_y :: real
  part_speed :: real
  part_length :: real

record weather =
  wtype :: weatherType
  intensity :: real
  timeLeft :: real
  particles :: "particle list"

text \<open>
  The module state. \<open>g_keys\<close> is the set of pressed keys and \<open>g_mouse\<close> the pointer, as
  the event handlers leave them before a frame. \<open>randoms\<close> and \<open>drawn\<close> stand for
  \<^verbatim>\<open>Math.random\<close>: \<open>randoms k\<close> is the value of the \<open>k\<close>-th call the simulation
  makes, \<open>drawn\<close> the number of calls made so far. The animation record and the on-screen
  message are presentation state and are left out; nothing in the simulation reads them.
\<close>

record game =
  g_world :: world
  g_player :: player
  g_camera :: camera
  g_mouse :: mouse
  g_keys :: "string set"
  selectedHotbar :: nat
  dayTime :: real
  totalTime :: real
  isDaytime :: bool
  inventory :: "tile \<rightharpoonup> int"
  weather :: weather
  randoms :: "nat \<Rightarrow> real"
  drawn :: nat

definition HOTBAR :: "tile list" where
  "HOTBAR = [DIRT, STONE, WOOD, SAND, BRICK, GLASS, TORCH, GRASS, AIR]"

text \<open>The state at load time, before \<^verbatim>\<open>generateWorld\<close> runs.\<close>

definition initialPlayer :: player where
  "initialPlayer =
     \<lparr>pos_x = (real_of_int WORLD_WIDTH / 2) * TILE_SIZE, pos_y = 0, vx = 0, vy = 0,
      width = 18, height = 34, onGround = False, wasOnGround = False, facing = 1,
      health = 100, maxHealth = 100, invulnerableTime = 0, lastDamageTime = 0\<rparr>"

definition initialWeather :: weather where
  "initialWeather = \<lparr>wtype = Clear, intensity = 0, timeLeft = 0, particles = []\<rparr>"

definition random :: "game \<Rightarrow> real \<times> game" where
  "random s = (randoms s (drawn s), s\<lparr>drawn := drawn s + 1\<rparr>)"

section \<open>Spawning\<close>

function spawnScan :: "world \<Rightarrow> int \<Rightarrow> player \<Rightarrow> player" where
  "spawnScan w y p =
     (if y < WORLD_HEIGHT then
        (let t = getTile w \<lfloor>real_of_int WORLD_WIDTH / 2\<rfloor> y
         in if t = GRASS then
              p\<lparr>pos_x := (real_of_int WORLD_WIDTH / 2) * TILE_SIZE,
                pos_y := (real_of_int y - 2) * TILE_SIZE\<rparr>
            else spawnScan w (y + 1) p)
      else p)"
  by pat_completeness auto
termination
  by (relation "measure (\<lambda>(w, y, p). nat (WORLD_HEIGHT - y))") auto

declare spawnScan.simps [simp del]

definition spawnPlayerOnSurface :: "game \<Rightarrow> game" where
  "spawnPlayerOnSurface s = s\<lparr>g_player := spawnScan (g_world s) 0 (g_player s)\<rparr>"

section \<open>Health\<close>

definition damagePlayer :: "real \<Rightarrow> game \<Rightarrow> game" where
  "damagePlayer amount s =
     (if invulnerableTime (g_player s) > 0 then s
      else s\<lparr>g_player := (g_player s)
               \<lparr>health := max 0 (health (g_player s) - amount),
                invulnerableTime := 1,
                lastDamageTime := totalTime s\<rparr>\<rparr>)"

text \<open>The five parts of \<^verbatim>\<open>updatePlayerHealth\<close>, in the order of the source.\<close>

definition tickInvulnerability :: "real \<Rightarrow> game \<Rightarrow> game" where
  "tickInvulnerability dt s =
     (if invulnerableTime (g_player s) > 0 then
        s\<lparr>g_player := (g_player s)\<lparr>invulnerableTime := invulnerableTime (g_player s) - dt / 60\<rparr>\<rparr>
      else s)"

text \<open>The guard of the fall-damage branch.\<close>

definition fallDamageDue :: "player \<Rightarrow> bool" where
  "fallDamageDue p \<longleftrightarrow> vy p > TERMINAL_VELOCITY * 0.8 \<and> onGround p \<and> \<not> wasOnGround p"

definition applyFallDamage :: "game \<Rightarrow> game" where
  "applyFallDamage s =
     (let s1 =
        (if fallDamageDue (g_player s) then
           (let fallDamage = max 0 \<lfloor>(vy (g_player s) - TERMINAL_VELOCITY * 0.7) * 5\<rfloor>
            in if fallDamage > 0 then damagePlayer (real_of_int fallDamage) s else s)
         else s)
      in s1\<lparr>g_player := (g_player s1)\<lparr>wasOnGround := onGround (g_player s1)\<rparr>\<rparr>)"

text \<open>
  \<^verbatim>\<open>&&\<close> evaluates from the left: \<^verbatim>\<open>Math.random()\<close> is called only in a storm
  at night, and a second time for the amount when the strike happens. The bolt drawn by
  \<^verbatim>\<open>drawLightning\<close> is presentation.
\<close>

definition applyLightning :: "real \<Rightarrow> game \<Rightarrow> game" where
  "applyLightning dt s =
     (if wtype (weather s) = Storm \<and> \<not> isDaytime s then
        (let (r, s1) = random s
         in if r < 0.0001 * dt \<and>
               \<not> isSolid (getTile (g_world s1) \<lfloor>pos_x (g_player s1) / TILE_SIZE\<rfloor>
                                    \<lfloor>pos_y (g_player s1) / TILE_SIZE - 2\<rfloor>)
            then (let (r', s2) = random s1 in damagePlayer (10 + real_of_int \<lfloor>r' * 10\<rfloor>) s2)
            else s1)
      else s)"

definition regenerate :: "real \<Rightarrow> game \<Rightarrow> game" where
  "regenerate dt s =
     (if health (g_player s) < maxHealth (g_player s) \<and>
         totalTime s - lastDamageTime (g_player s) > 5
      then s\<lparr>g_player := (g_player s)
               \<lparr>health := min (maxHealth (g_player s)) (health (g_player s) + 0.01 * dt / 60)\<rparr>\<rparr>
      else s)"

definition deathCheck :: "game \<Rightarrow> game" where
  "deathCheck s =
     (if health (g_player s) \<le> 0 then
        spawnPlayerOnSurface (s\<lparr>g_player := (g_player s)\<lparr>health := maxHealth (g_player s)\<rparr>\<rparr>)
      else s)"

definition updatePlayerHealth :: "real \<Rightarrow> game \<Rightarrow> game" where
  "updatePlayerHealth dt s =
     deathCheck (regenerate dt (applyLightning dt (applyFallDamage (tickInvulnerability dt s))))"

section \<open>Weather\<close>

definition startNewWeather :: "game \<Rightarrow> game" where
  "startNewWeather s =
     (let (r, s1) = random s
      in if r < 0.7 then
           (let (ri, s2) = random s1; (rt, s3) = random s2
            in s3\<lparr>weather := (weather s3)
                    \<lparr>wtype := Rain, intensity := 0.3 + ri * 0.7, timeLeft := 30 + rt * 120,
                     particles := []\<rparr>\<rparr>)
         else
           (let (ri, s2) = random s1; (rt, s3) = random s2
            in s3\<lparr>weather := (weather s3)
                    \<lparr>wtype := Storm, intensity := 0.6 + ri * 0.4, timeLeft := 20 + rt * 60,
                     particles := []\<rparr>\<rparr>))"

text \<open>
  \<^verbatim>\<open>for (let i = 0; i < particleCount; i++)\<close>: three calls of
  \<^verbatim>\<open>Math.random()\<close> per particle, for x, speed and length in that order.
\<close>

function spawnParticles :: "int \<Rightarrow> int \<Rightarrow> game \<Rightarrow> game" where
  "spawnParticles particleCount i s =
     (if i < particleCount then
        (let (rx, s1) = random s;
             x = cam_x (g_camera s1) + rx * cam_width (g_camera s1);
             y = cam_y (g_camera s1);
             (rs, s2) = random s1;
             speed = (if wtype (weather s2) = Rain then 10 + rs * 15 else 15 + rs * 20);
             (rl, s3) = random s2;
             len = (if wtype (weather s3) = Rain then 10 + rl * 15 else 5 + rl * 10)
         in spawnParticles particleCount (i + 1)
              (s3\<lparr>weather := (weather s3)
                    \<lparr>particles := particles (weather s3) @
                       [\<lparr>part_x = x, part_y = y, part_speed = speed, part_length = len\<rparr>]\<rparr>\<rparr>))
      else s)"
  by pat_completeness auto
termination
  by (relation "measure (\<lambda>(particleCount, i, s). nat (particleCount - i))") auto

declare spawnParticles.simps [simp del]

text \<open>\<^verbatim>\<open>weather.particles.splice(i, 1)\<close>.\<close>

definition splice1 :: "'a list \<Rightarrow> nat \<Rightarrow> 'a list" where
  "splice1 xs i = take i xs @ drop (Suc i) xs"

text \<open>
  \<^verbatim>\<open>for (let i = weather.particles.length - 1; i >= 0; i--)\<close>: move the particle,
  remove it when it is below the view or in a solid tile; rain on sand turns the sand into
  dirt with probability 0.001.
\<close>

function moveParticles :: "real \<Rightarrow> int \<Rightarrow> game \<Rightarrow> game" where
  "moveParticles dt i s =
     (if i \<ge> 0 then
        (let ps = particles (weather s);
             particle = (ps ! nat i)\<lparr>part_y := part_y (ps ! nat i) + part_speed (ps ! nat i) * dt / 5\<rparr>;
             s1 = s\<lparr>weather := (weather s)\<lparr>particles := ps[nat i := particle]\<rparr>\<rparr>;
             removed = s1\<lparr>weather := (weather s1)\<lparr>particles := splice1 (particles (weather s1)) (nat i)\<rparr>\<rparr>
         in if part_y particle > cam_y (g_camera s1) + cam_height (g_camera s1) then
              moveParticles dt (i - 1) removed
            else
              (let tx = \<lfloor>part_x particle / TILE_SIZE\<rfloor>;
                   ty = \<lfloor>part_y particle / TILE_SIZE\<rfloor>
               in if isSolid (getTile (g_world s1) tx ty) then
                    (if wtype (weather removed) = Rain \<and> getTile (g_world removed) tx ty = SAND then
                       (let (r, s2) = random removed
                        in moveParticles dt (i - 1)
                             (if r < 0.001 then s2\<lparr>g_world := setTile (g_world s2) tx ty DIRT\<rparr>
                              else s2))
                     else moveParticles dt (i - 1) removed)
                  else moveParticles dt (i - 1) s1))
      else s)"
  by pat_completeness auto
termination
  by (relation "measure (\<lambda>(dt, i, s). nat (i + 1))") auto

declare moveParticles.simps [simp del]

definition updateWeatherParticles :: "real \<Rightarrow> game \<Rightarrow> game" where
  "updateWeatherParticles dt s =
     (if wtype (weather s) = Clear then s
      else
        (let particleCount =
               (if wtype (weather s) = Rain then \<lfloor>intensity (weather s) * 3 * dt\<rfloor>
                else \<lfloor>intensity (weather s) * 5 * dt\<rfloor>);
             s1 = spawnParticles particleCount 0 s
         in moveParticles dt (int (length (particles (weather s1))) - 1) s1))"

definition updateWeather :: "real \<Rightarrow> game \<Rightarrow> game" where
  "updateWeather dt s =
     updateWeatherParticles dt
       (if timeLeft (weather s) > 0 then
          (let s1 = s\<lparr>weather := (weather s)\<lparr>timeLeft := timeLeft (weather s) - dt / 60\<rparr>\<rparr>
           in if timeLeft (weather s1) \<le> 0 then
                s1\<lparr>weather := (weather s1)\<lparr>wtype := Clear, intensity := 0, particles := []\<rparr>\<rparr>
              else s1)
        else
          (let (r, s1) = random s
           in if r < 0.001 * dt then startNewWeather s1 else s1))"

section \<open>The frame update\<close>

text \<open>\<^verbatim>\<open>a % b\<close> on numbers: the remainder has the sign of \<open>a\<close>.\<close>

definition js_rem :: "real \<Rightarrow> real \<Rightarrow> real" where
  "js_rem a b = a - b * (if a / b \<ge> 0 then of_int \<lfloor>a / b\<rfloor> else of_int \<lceil>a / b\<rceil>)"

definition updateDayNight :: "real \<Rightarrow> game \<Rightarrow> game" where
  "updateDayNight dt s =
     (let total = totalTime s + dt / 60;
          day = js_rem total DAY_NIGHT_CYCLE_DURATION / DAY_NIGHT_CYCLE_DURATION
      in s\<lparr>totalTime := total, dayTime := day, isDaytime := (day < DAY_PORTION)\<rparr>)"

text \<open>
  Movement input, gravity and the two collision calls (one per axis). Each assignment of
  the source to a field of \<^verbatim>\<open>player\<close> is one binding, in the order of the source;
  \<^verbatim>\<open>!(left ^ right)\<close> holds when both keys or neither are pressed. The
  \<^verbatim>\<open>player.onGround = false\<close> of a jump is overwritten by the last assignment
  and read by nothing in between.
\<close>

definition movePlayer :: "game \<Rightarrow> game" where
  "movePlayer s =
     (let left = (''a'' \<in> g_keys s \<or> ''arrowleft'' \<in> g_keys s);
          right = (''d'' \<in> g_keys s \<or> ''arrowright'' \<in> g_keys s);
          jump = (''w'' \<in> g_keys s \<or> ''arrowup'' \<in> g_keys s \<or> '' '' \<in> g_keys s);
          p = g_player s;
          accel = (if onGround p then MOVE_ACCEL else AIR_ACCEL);
          vx1 = (if left \<and> \<not> right then vx p - accel else vx p);
          vx2 = (if right \<and> \<not> left then vx1 + accel else vx1);
          facing1 = (if left \<and> \<not> right then - 1 else facing p);
          facing2 = (if right \<and> \<not> left then 1 else facing1);
          vx3 = (if left = right then vx2 * FRICTION else vx2);
          vx4 = max (- MAX_RUN_SPEED) (min MAX_RUN_SPEED vx3);
          vy1 = (if jump \<and> onGround p then JUMP_VELOCITY else vy p);
          vy2 = min TERMINAL_VELOCITY (vy1 + GRAVITY);
          resultX = aabbVsTiles (g_world s) (pos_x p) (pos_y p) (width p) (height p) vx4 0;
          x1 = res_x resultX;
          vx5 = (if hitX resultX then 0 else vx4);
          resultY = aabbVsTiles (g_world s) x1 (pos_y p) (width p) (height p) 0 vy2;
          y1 = res_y resultY;
          vy3 = (if hitY resultY then 0 else vy2)
      in s\<lparr>g_player := p\<lparr>pos_x := x1, pos_y := y1, vx := vx5, vy := vy3, facing := facing2,
                             onGround := grounded resultY\<rparr>\<rparr>)"

definition followCamera :: "game \<Rightarrow> game" where
  "followCamera s =
     (let p = g_player s; c = g_camera s; m = g_mouse s;
          targetX = pos_x p - cam_width c / 2;
          targetY = pos_y p - cam_height c / 2;
          cx = cam_x c + (targetX - cam_x c) * 0.15;
          cy = cam_y c + (targetY - cam_y c) * 0.15;
          cx' = max 0 (min cx (real_of_int WORLD_WIDTH * TILE_SIZE - cam_width c));
          cy' = max 0 (min cy (real_of_int WORLD_HEIGHT * TILE_SIZE - cam_height c));
          worldMouseX = cx' + mouse_x m;
          worldMouseY = cy' + mouse_y m
      in s\<lparr>g_camera := c\<lparr>cam_x := cx', cam_y := cy'\<rparr>,
            g_mouse := m\<lparr>mouse_tx := \<lfloor>worldMouseX / TILE_SIZE\<rfloor>,
                         mouse_ty := \<lfloor>worldMouseY / TILE_SIZE\<rfloor>\<rparr>\<rparr>)"

text \<open>\<^verbatim>\<open>(gameState.inventory[t] || 0)\<close>: a missing key counts as zero.\<close>

definition count :: "(tile \<rightharpoonup> int) \<Rightarrow> tile \<Rightarrow> int" where
  "count items t = (case items t of None \<Rightarrow> 0 | Some c \<Rightarrow> c)"

text \<open>The mining branch of \<^verbatim>\<open>update\<close> (left button).\<close>

definition mine :: "game \<Rightarrow> game" where
  "mine s =
     (let t = getTile (g_world s) (mouse_tx (g_mouse s)) (mouse_ty (g_mouse s))
      in if t \<noteq> AIR then
           s\<lparr>inventory := (inventory s)(t \<mapsto> count (inventory s) t + 1),
             g_world := setTile (g_world s) (mouse_tx (g_mouse s)) (mouse_ty (g_mouse s)) AIR\<rparr>
         else s)"

text \<open>
  The placing branch (right button). \<^verbatim>\<open>HOTBAR[selectedHotbar]\<close> is
  \<^verbatim>\<open>undefined\<close> for an index outside the array, which passes the test against
  \<open>AIR\<close> and fails the inventory test. \<^verbatim>\<open>inventory[placeId] > 0\<close> is false for a
  missing key. The decrement is reached only with a positive stored count.
\<close>

definition intersectsPlayer :: "player \<Rightarrow> int \<Rightarrow> int \<Rightarrow> bool" where
  "intersectsPlayer p tx ty =
     (let tileWorldX = real_of_int tx * TILE_SIZE + TILE_SIZE / 2;
          tileWorldY = real_of_int ty * TILE_SIZE + TILE_SIZE / 2;
          intersectsX = (\<bar>tileWorldX - pos_x p\<bar> < (TILE_SIZE + width p) / 2);
          intersectsY = (\<bar>tileWorldY - pos_y p\<bar> < (TILE_SIZE + height p) / 2)
      in intersectsX \<and> intersectsY)"

definition place :: "game \<Rightarrow> game" where
  "place s =
     (let tx = mouse_tx (g_mouse s); ty = mouse_ty (g_mouse s)
      in if selectedHotbar s < length HOTBAR then
           (let placeId = HOTBAR ! selectedHotbar s
            in if placeId \<noteq> AIR \<and> getTile (g_world s) tx ty = AIR then
                 (if (case inventory s placeId of None \<Rightarrow> False | Some c \<Rightarrow> c > 0) \<or> placeId = DIRT then
                    (if \<not> intersectsPlayer (g_player s) tx ty then
                       (let s1 = s\<lparr>g_world := setTile (g_world s) tx ty placeId\<rparr>
                        in if placeId \<noteq> DIRT then
                             s1\<lparr>inventory := (inventory s1)(placeId \<mapsto> count (inventory s1) placeId - 1)\<rparr>
                           else s1)
                     else s)
                  else s)
               else s)
         else s)"

definition interact :: "game \<Rightarrow> game" where
  "interact s =
     (let pxTile = pos_x (g_player s) / TILE_SIZE;
          pyTile = pos_y (g_player s) / TILE_SIZE;
          dist = sqrt ((real_of_int (mouse_tx (g_mouse s)) - pxTile)\<^sup>2 +
                       (real_of_int (mouse_ty (g_mouse s)) - pyTile)\<^sup>2);
          inReach = (dist \<le> REACH)
      in if inReach then
           (if mouse_left (g_mouse s) then mine s
            else if mouse_right (g_mouse s) then place s
            else s)
         else s)"

definition update :: "real \<Rightarrow> game \<Rightarrow> game" where
  "update dt s =
     interact (followCamera (movePlayer (updatePlayerHealth dt (updateWeather dt (updateDayNight dt s)))))"

section \<open>Vocabulary of the properties\<close>

text \<open>
  An actor box with centre \<open>(px, py)\<close>, width \<open>pw\<close> and height \<open>ph\<close> rests on a
  solid tile row: its bottom edge lies exactly on the top edge of a tile row, and that row
  has a solid tile in the columns the box spans (the columns the vertical sweep tests).
\<close>

definition restsOn :: "world \<Rightarrow> real \<Rightarrow> real \<Rightarrow> real \<Rightarrow> real \<Rightarrow> bool" where
  "restsOn w px py pw ph \<longleftrightarrow>
     (let row = \<lfloor>(py + ph / 2) / TILE_SIZE\<rfloor>
      in of_int row * TILE_SIZE = py + ph / 2 \<and>
         rowCollides w row \<lfloor>(px - pw / 2) / TILE_SIZE\<rfloor> \<lfloor>(px + pw / 2) / TILE_SIZE\<rfloor>)"

text \<open>A grid for examples: air in rows 0 to 65, stone from row 66 down.\<close>

definition flatWorld :: world where
  "flatWorld = replicate 66 (replicate 200 AIR) @ replicate 54 (replicate 200 STONE)"

text \<open>
  A state for examples: the player stands on the stone of \<open>flatWorld\<close> in the centre
  column, stone is selected in the hotbar, the inventory is empty, the pointer is on the
  air tile \<open>(104, 62)\<close>, the weather is clear and every call of \<^verbatim>\<open>Math.random()\<close>
  returns one half.
\<close>

definition exampleGame :: game where
  "exampleGame =
     \<lparr>g_world = flatWorld,
      g_player = initialPlayer\<lparr>pos_y := 1567, onGround := True, wasOnGround := True\<rparr>,
      g_camera = \<lparr>cam_x = 2000, cam_y = 1267, cam_width = 800, cam_height = 600\<rparr>,
      g_mouse = \<lparr>mouse_x = 500, mouse_y = 230, mouse_tx = 104, mouse_ty = 62,
                 mouse_left = False, mouse_right = True\<rparr>,
      g_keys = {},
      selectedHotbar = 1,
      dayTime = 0, totalTime = 0, isDaytime = True,
      inventory = Map.empty,
      weather = initialWeather,
      randoms = (\<lambda>k. 1 / 2),
      drawn = 0\<rparr>"

text \<open>
  The interiors of the tile \<open>(tx, ty)\<close> and of the player's box intersect.
\<close>

definition footprintOverlaps :: "player \<Rightarrow> int \<Rightarrow> int \<Rightarrow> bool" where
  "footprintOverlaps p tx ty \<longleftrightarrow>
     real_of_int tx * TILE_SIZE < pos_x p + width p / 2 \<and>
     pos_x p - width p / 2 < (real_of_int tx + 1) * TILE_SIZE \<and>
     real_of_int ty * TILE_SIZE < pos_y p + height p / 2 \<and>
     pos_y p - height p / 2 < (real_of_int ty + 1) * TILE_SIZE"

text \<open>
  Sequences of operations on the health: a direct damage call, the regeneration step, the
  death check (respawn), a whole \<^verbatim>\<open>updatePlayerHealth\<close>, a whole frame, and a change
  of the input between frames.
\<close>

datatype operation =
    Damage real
  | Regenerate real
  | Respawn
  | HealthUpdate real
  | Frame real
  | Input "string set" mouse nat

fun perform :: "operation \<Rightarrow> game \<Rightarrow> game" where
  "perform (Damage amount) s = damagePlayer amount s"
| "perform (Regenerate dt) s = regenerate dt s"
| "perform Respawn s = deathCheck s"
| "perform (HealthUpdate dt) s = updatePlayerHealth dt s"
| "perform (Frame dt) s = update dt s"
| "perform (Input ks m i) s = s\<lparr>g_keys := ks, g_mouse := m, selectedHotbar := i\<rparr>"

fun run :: "operation list \<Rightarrow> game \<Rightarrow> game" where
  "run [] s = s"
| "run (operation # ops) s = run ops (perform operation s)"

text \<open>
  Damage amounts and elapsed times are not negative (the code passes
  \<open>fallDamage > 0\<close> and \<open>10 + \<lfloor>r * 10\<rfloor>\<close>; \<open>dt\<close> is a clamped time difference).
\<close>

fun admissible :: "operation \<Rightarrow> bool" where
  "admissible (Damage amount) = (0 \<le> amount)"
| "admissible (Regenerate dt) = (0 \<le> dt)"
| "admissible _ = True"

definition healthInRange :: "game \<Rightarrow> bool" where
  "healthInRange s \<longleftrightarrow> 0 \<le> health (g_player s) \<and> health (g_player s) \<le> maxHealth (g_player s)"

text \<open>
  A fall: the player is 10 units above the stone of \<open>flatWorld\<close>, not grounded, moving
  down at 17.4 (terminal velocity after this frame's gravity); no key or button is pressed.
\<close>

definition fallingGame :: game where
  "fallingGame =
     exampleGame
       \<lparr>g_player := initialPlayer\<lparr>pos_y := 1557, vy := 17.4\<rparr>,
        g_mouse := \<lparr>mouse_x = 500, mouse_y = 230, mouse_tx = 104, mouse_ty = 62,
                    mouse_left = False, mouse_right = False\<rparr>\<rparr>"

text \<open>Rain with a hundredth of a second left.\<close>

definition rainyGame :: game where
  "rainyGame =
     exampleGame\<lparr>weather := \<lparr>wtype = Rain, intensity = 1 / 2, timeLeft = 1 / 100, particles = []\<rparr>\<rparr>"

text \<open>
  The states the weather machine can reach from \<open>initialWeather\<close>: an active weather type
  has time left.
\<close>

definition weatherActiveHasTime :: "game \<Rightarrow> bool" where
  "weatherActiveHasTime s \<longleftrightarrow> wtype (weather s) = Clear \<or> 0 < timeLeft (weather s)"

text \<open>The state of \<open>fallingGame\<close> after one frame: the player has landed.\<close>

definition landedGame :: game where
  "landedGame =
     \<lparr>g_world = flatWorld,
      g_player =
        \<lparr>pos_x = 2400, pos_y = 1567, vx = 0, vy = 0, width = 18, height = 34,
         onGround = True, wasOnGround = False, facing = 1, health = 100, maxHealth = 100,
         invulnerableTime = 0, lastDamageTime = 0\<rparr>,
      g_camera = \<lparr>cam_x = 2000, cam_y = 1267, cam_width = 800, cam_height = 600\<rparr>,
      g_mouse = \<lparr>mouse_x = 500, mouse_y = 230, mouse_tx = 104, mouse_ty = 62,
                 mouse_left = False, mouse_right = False\<rparr>,
      g_keys = {}, selectedHotbar = 1, dayTime = 1 / 36000, totalTime = 1 / 60,
      isDaytime = True, inventory = Map.empty, weather = initialWeather,
      randoms = (\<lambda>k. 1 / 2), drawn = 1\<rparr>"

text \<open>
  The tile that the loop body for a column with surface \<open>groundY\<close> and biome \<open>biome\<close>,
  entered with generator state \<open>a\<close>, leaves at depth \<open>y\<close> of that column: the layer tile,
  turned to stone inside the patch rows unless it is air, and to wood inside the trunk.
\<close>

definition columnTile :: "int \<Rightarrow> biome \<Rightarrow> int \<Rightarrow> int \<Rightarrow> tile" where
  "columnTile groundY biome a y =
     (let (r, a1) = mulberry32 a;
          (t2, a2) =
            (if r < 0.1 then
               (let (r1, b1) = mulberry32 a1;
                    sy = groundY + 5 + \<lfloor>r1 * 10\<rfloor>;
                    (r2, b2) = mulberry32 b1;
                    sh = 3 + \<lfloor>r2 * 4\<rfloor>;
                    (r3, b3) = mulberry32 b2
                in (if sy \<le> y \<and> y < sy + sh \<and> layerTile groundY biome y \<noteq> AIR then STONE
                    else layerTile groundY biome y, b3))
             else (layerTile groundY biome y, a1))
      in if biome = Forest then
           (let (r4, c1) = mulberry32 a2
            in if r4 < 0.03 then
                 (let (r5, c2) = mulberry32 c1;
                      treeHeight = 5 + \<lfloor>r5 * 3\<rfloor>
                  in if groundY - treeHeight \<le> y \<and> y < groundY then WOOD else t2)
               else t2)
         else t2)"

text \<open>The height map and the biome list that \<open>generateWorld seed\<close> computes.\<close>

definition heightsOf :: "int \<Rightarrow> int list" where
  "heightsOf seed = fst (genHeights 0 \<lfloor>real_of_int WORLD_HEIGHT * 0.55\<rfloor> seed [])"

definition biomesOf :: "int \<Rightarrow> biome list" where
  "biomesOf seed =
     (let a1 = snd (genHeights 0 \<lfloor>real_of_int WORLD_HEIGHT * 0.55\<rfloor> seed []);
          (r, a2) = mulberry32 a1
      in fst (genBiomes 0 Forest (20 + \<lfloor>r * 30\<rfloor>) a2 []))"

text \<open>
  One step of the height walk from height \<open>h\<close> and generator state \<open>a\<close>, and \<open>n\<close> steps
  of it: \<open>walk (n + 1) h a\<close> is the height of the \<open>n\<close>-th column after a state \<open>(h, a)\<close>.
\<close>

definition heightStep :: "int \<Rightarrow> int \<Rightarrow> int" where
  "heightStep h a =
     max 20 (min (WORLD_HEIGHT - 15)
       (h + sign ((fst (mulberry32 a) - 0.5) * 2) *
            (if fst (mulberry32 (a + 1831565813)) < 0.55 then 1 else 0)))"

fun walk :: "nat \<Rightarrow> int \<Rightarrow> int \<Rightarrow> int" where
  "walk 0 h a = h"
| "walk (Suc n) h a = walk n (heightStep h a) (a + 3663131626)"

chapter \<open>Properties\<close>

section \<open>The tile grid\<close>

text \<open>
  C2. For every coordinate outside \<open>0 \<le> x < WORLD_WIDTH\<close>, \<open>0 \<le> y < WORLD_HEIGHT\<close>,
  \<open>getTile\<close> returns the solid sentinel \<open>STONE\<close> and \<open>setTile\<close> leaves the grid as it
  is.
\<close>

theorem out_of_bounds_access:
  "\<not> (0 \<le> x \<and> x < WORLD_WIDTH \<and> 0 \<le> y \<and> y < WORLD_HEIGHT) \<Longrightarrow>
     getTile w x y = STONE \<and> isSolid (getTile w x y) \<and> setTile w x y t = w"
  by (auto simp: getTile_def setTile_def inBounds_def isSolid_def)

theorem out_of_bounds_access_witness:
  "\<not> (0 \<le> (200::int) \<and> (200::int) < WORLD_WIDTH \<and> 0 \<le> (- 1::int) \<and> (- 1::int) < WORLD_HEIGHT) \<and>
   getTile flatWorld 200 (- 1) = STONE \<and> isSolid (getTile flatWorld 200 (- 1)) \<and>
   setTile flatWorld 200 (- 1) GRASS = flatWorld"
proof -
  have h: "\<not> (0 \<le> (200::int) \<and> (200::int) < WORLD_WIDTH \<and> 0 \<le> (- 1::int) \<and> (- 1::int) < WORLD_HEIGHT)"
    by (simp add: WORLD_WIDTH_def)
  from out_of_bounds_access [OF h, of flatWorld GRASS] h show ?thesis
    by blast
qed

section \<open>Collision resolution\<close>

lemma sweepX_Inl:
  "sweepX w px py pw ph dx moved newX = Inl r \<Longrightarrow>
     res_y r = py \<and> hitX r \<and> \<not> hitY r \<and> \<not> grounded r"
proof (induction w px py pw ph dx moved newX rule: sweepX.induct)
  case (1 w px py pw ph dx moved newX)
  show ?case
  proof (cases "dx \<noteq> 0 \<and> moved < \<bar>dx\<bar>")
    case False
    with "1.prems" show ?thesis by (simp add: sweepX.simps)
  next
    case go: True
    let ?step = "sgn dx * min \<bar>dx\<bar> TILE_SIZE"
    let ?nextX = "px + min \<bar>dx\<bar> (moved + \<bar>?step\<bar>) * sgn dx"
    let ?coll = "columnCollides w
        (if sgn dx > 0 then \<lfloor>(?nextX + pw / 2) / TILE_SIZE\<rfloor> else \<lfloor>(?nextX - pw / 2) / TILE_SIZE\<rfloor>)
        \<lfloor>(py - ph / 2) / TILE_SIZE\<rfloor> \<lfloor>(py + ph / 2 - 1) / TILE_SIZE\<rfloor>"
    show ?thesis
    proof (cases ?coll)
      case True
      with "1.prems" go show ?thesis
        by (subst (asm) sweepX.simps) (auto simp: Let_def)
    next
      case False
      from "1.prems" go False have "sweepX w px py pw ph dx (moved + \<bar>?step\<bar>) ?nextX = Inl r"
        by (subst (asm) sweepX.simps) (simp add: Let_def)
      from "1.IH" [OF go refl refl refl refl refl refl refl False this] show ?thesis .
    qed
  qed
qed

lemma sweepY_Inl:
  "sweepY w newX py pw ph dy moved newY = Inl r \<Longrightarrow>
     res_x r = newX \<and> hitY r \<and> \<not> hitX r \<and> (grounded r \<longleftrightarrow> 0 < dy)"
proof (induction w newX py pw ph dy moved newY rule: sweepY.induct)
  case (1 w newX py pw ph dy moved newY)
  show ?case
  proof (cases "dy \<noteq> 0 \<and> moved < \<bar>dy\<bar>")
    case False
    with "1.prems" show ?thesis by (simp add: sweepY.simps)
  next
    case go: True
    let ?step = "sgn dy * min \<bar>dy\<bar> TILE_SIZE"
    let ?nextY = "py + min \<bar>dy\<bar> (moved + \<bar>?step\<bar>) * sgn dy"
    let ?coll = "rowCollides w
        (if sgn dy > 0 then \<lfloor>(?nextY + ph / 2 - 1) / TILE_SIZE\<rfloor> else \<lfloor>(?nextY - ph / 2) / TILE_SIZE\<rfloor>)
        \<lfloor>(newX - pw / 2) / TILE_SIZE\<rfloor> \<lfloor>(newX + pw / 2) / TILE_SIZE\<rfloor>"
    show ?thesis
    proof (cases ?coll)
      case True
      with "1.prems" go show ?thesis
        by (subst (asm) sweepY.simps) (auto simp: Let_def split: if_splits)
    next
      case False
      from "1.prems" go False have "sweepY w newX py pw ph dy (moved + \<bar>?step\<bar>) ?nextY = Inl r"
        by (subst (asm) sweepY.simps) (simp add: Let_def)
      from "1.IH" [OF go refl refl refl refl refl refl refl False this] show ?thesis .
    qed
  qed
qed

text \<open>
  C10. With zero vertical delta the returned y is the input y, and with zero horizontal
  delta the returned x is the input x, for every position, size and displacement.
\<close>

theorem axis_independence:
  "res_y (aabbVsTiles w px py pw ph dx 0) = py \<and> res_x (aabbVsTiles w px py pw ph 0 dy) = px"
  by (auto simp: aabbVsTiles_def Let_def split: sum.splits dest: sweepX_Inl sweepY_Inl)

text \<open>
  C4, as the code has it. A call with zero horizontal and zero vertical delta skips both
  sweeps: it returns the input position, and \<open>grounded\<close> is false, whatever lies under
  the box. (\<open>grounded\<close> is set only by a downward collision found in the same call.)
\<close>

theorem zero_motion_unchanged_not_grounded:
  "aabbVsTiles w px py pw ph 0 0 =
     \<lparr>res_x = px, res_y = py, grounded = False, hitX = False, hitY = False\<rparr>"
  by (simp add: aabbVsTiles_def)

text \<open>A grid of examples and two of its rows.\<close>

lemma getTile_flatWorld:
  "getTile flatWorld tx ty = (if inBounds tx ty \<and> ty < 66 then AIR else STONE)"
proof (cases "inBounds tx ty")
  case False
  then show ?thesis by (simp add: getTile_def)
next
  case True
  then have b: "nat ty < 120" "nat tx < 200" "0 \<le> ty"
    by (auto simp: inBounds_def WORLD_WIDTH_def WORLD_HEIGHT_def)
  show ?thesis
  proof (cases "ty < 66")
    case True
    with b have "nat ty < 66" by simp
    with b \<open>inBounds tx ty\<close> True show ?thesis
      by (simp add: getTile_def flatWorld_def nth_append)
  next
    case False
    with b have "\<not> nat ty < 66" "nat ty - 66 < 54" by auto
    with b \<open>inBounds tx ty\<close> False show ?thesis
      by (simp add: getTile_def flatWorld_def nth_append)
  qed
qed

lemma flatWorld_row_65: "\<not> rowCollides flatWorld 65 99 100"
  by (simp add: rowCollides.simps getTile_flatWorld isSolid_def inBounds_def WORLD_WIDTH_def WORLD_HEIGHT_def)

lemma flatWorld_row_66: "rowCollides flatWorld 66 99 100"
  by (simp add: rowCollides.simps getTile_flatWorld isSolid_def inBounds_def WORLD_WIDTH_def WORLD_HEIGHT_def)

text \<open>
  The claim C4 as stated (grounded is reported true at rest) fails: a box of 18 by 34
  standing on the stone of \<open>flatWorld\<close> (bottom edge at \<open>66 * 24 = 1584\<close>).
\<close>

theorem resting_zero_motion_counterexample:
  "restsOn flatWorld 2400 1567 18 34 \<and>
   \<not> grounded (aabbVsTiles flatWorld 2400 1567 18 34 0 0)"
  by (simp add: restsOn_def TILE_SIZE_def aabbVsTiles_def flatWorld_row_66)

subsection \<open>The downward snap\<close>

text \<open>A horizontal sweep that ends without a collision ends at \<open>px + dx\<close>.\<close>

lemma sweepX_Inr:
  "sweepX w px py pw ph dx moved newX = Inr v \<Longrightarrow>
     v = (if dx \<noteq> 0 \<and> moved < \<bar>dx\<bar> then px + dx else newX)"
proof (induction w px py pw ph dx moved newX rule: sweepX.induct)
  case (1 w px py pw ph dx moved newX)
  show ?case
  proof (cases "dx \<noteq> 0 \<and> moved < \<bar>dx\<bar>")
    case False
    with "1.prems" show ?thesis by (auto simp: sweepX.simps)
  next
    case go: True
    let ?step = "sgn dx * min \<bar>dx\<bar> TILE_SIZE"
    let ?nextX = "px + min \<bar>dx\<bar> (moved + \<bar>?step\<bar>) * sgn dx"
    let ?coll = "columnCollides w
        (if sgn dx > 0 then \<lfloor>(?nextX + pw / 2) / TILE_SIZE\<rfloor> else \<lfloor>(?nextX - pw / 2) / TILE_SIZE\<rfloor>)
        \<lfloor>(py - ph / 2) / TILE_SIZE\<rfloor> \<lfloor>(py + ph / 2 - 1) / TILE_SIZE\<rfloor>"
    have nc: "\<not> ?coll"
      using "1.prems" go by (subst (asm) sweepX.simps) (auto simp: Let_def split: if_splits)
    from "1.prems" go nc have "sweepX w px py pw ph dx (moved + \<bar>?step\<bar>) ?nextX = Inr v"
      by (subst (asm) sweepX.simps) (simp add: Let_def)
    from "1.IH" [OF go refl refl refl refl refl refl refl nc this]
    have v: "v = (if dx \<noteq> 0 \<and> moved + \<bar>?step\<bar> < \<bar>dx\<bar> then px + dx else ?nextX)" .
    have "\<bar>dx\<bar> * sgn dx = dx"
      by (simp add: sgn_if)
    then have "\<not> moved + \<bar>?step\<bar> < \<bar>dx\<bar> \<Longrightarrow> ?nextX = px + dx"
      by (simp add: min_def)
    with v go show ?thesis by auto
  qed
qed

text \<open>
  The vertical sweep moves the sampled bottom edge by at most one tile per increment, so it
  cannot step over row \<open>R\<close>: the first sample with \<open>bottom - 1\<close> at or below the top
  edge of \<open>R\<close> lies in \<open>R\<close>.
\<close>

lemma sweepY_snap:
  fixes R :: int
  assumes "0 \<le> moved" and "moved < dy"
    and "py + ph / 2 + moved - 1 < of_int R * TILE_SIZE"
    and "of_int R * TILE_SIZE - (py + ph / 2) + 1 \<le> dy"
    and "rowCollides w R \<lfloor>(newX - pw / 2) / TILE_SIZE\<rfloor> \<lfloor>(newX + pw / 2) / TILE_SIZE\<rfloor>"
    and "\<forall>r. \<lfloor>(py + ph / 2 - 1) / TILE_SIZE\<rfloor> \<le> r \<and> r < R \<longrightarrow>
           \<not> rowCollides w r \<lfloor>(newX - pw / 2) / TILE_SIZE\<rfloor> \<lfloor>(newX + pw / 2) / TILE_SIZE\<rfloor>"
  shows "sweepY w newX py pw ph dy moved newY =
           Inl \<lparr>res_x = newX, res_y = of_int R * TILE_SIZE - ph / 2,
                grounded = True, hitX = False, hitY = True\<rparr>"
  using assms
proof (induction w newX py pw ph dy moved newY rule: sweepY.induct)
  case (1 w newX py pw ph dy moved newY)
  from "1.prems" have dy: "0 < dy" and go: "dy \<noteq> 0 \<and> moved < \<bar>dy\<bar>" by auto
  define s where "s = min dy TILE_SIZE"
  define m where "m = min dy (moved + s)"
  have s: "0 < s" "s \<le> TILE_SIZE" "s \<le> dy" using dy by (auto simp: s_def TILE_SIZE_def)
  have st: "\<bar>sgn dy * min \<bar>dy\<bar> TILE_SIZE\<bar> = s" "sgn dy = 1" "\<bar>dy\<bar> = dy"
    "\<bar>min dy TILE_SIZE\<bar> = s"
    using dy s by (auto simp: s_def)
  let ?step = "sgn dy * min \<bar>dy\<bar> TILE_SIZE"
  let ?nextY = "py + min \<bar>dy\<bar> (moved + \<bar>?step\<bar>) * sgn dy"
  let ?left = "\<lfloor>(newX - pw / 2) / TILE_SIZE\<rfloor>"
  let ?right = "\<lfloor>(newX + pw / 2) / TILE_SIZE\<rfloor>"
  let ?bottom = "\<lfloor>(?nextY + ph / 2 - 1) / TILE_SIZE\<rfloor>"
  let ?coll = "rowCollides w
        (if sgn dy > 0 then ?bottom else \<lfloor>(?nextY - ph / 2) / TILE_SIZE\<rfloor>) ?left ?right"
  have nextY: "?nextY = py + m" by (simp add: st m_def)
  have m: "0 \<le> m" "m \<le> moved + TILE_SIZE" "m \<le> dy"
    using "1.prems"(1) s by (auto simp: m_def)
  show ?case
  proof (cases "of_int R * TILE_SIZE \<le> py + ph / 2 + m - 1")
    case True
    have "?bottom = R"
    proof (rule floor_unique)
      show "of_int R \<le> (?nextY + ph / 2 - 1) / TILE_SIZE"
        using True unfolding nextY by (simp add: TILE_SIZE_def field_simps)
      show "(?nextY + ph / 2 - 1) / TILE_SIZE < of_int R + 1"
        using "1.prems"(3) m(2) unfolding nextY by (simp add: TILE_SIZE_def field_simps)
    qed
    with "1.prems"(5) have ?coll by (simp add: st)
    with go \<open>?bottom = R\<close> show ?thesis
      by (subst sweepY.simps) (simp add: Let_def st)
  next
    case False
    then have lt: "py + ph / 2 + m - 1 < of_int R * TILE_SIZE" by simp
    have "(?nextY + ph / 2 - 1) / TILE_SIZE < of_int R"
      using lt unfolding nextY by (simp add: TILE_SIZE_def field_simps)
    then have b1: "?bottom < R" by (simp add: floor_less_iff)
    have "(py + ph / 2 - 1) / TILE_SIZE \<le> (?nextY + ph / 2 - 1) / TILE_SIZE"
      using m(1) unfolding nextY by (simp add: TILE_SIZE_def field_simps)
    then have b2: "\<lfloor>(py + ph / 2 - 1) / TILE_SIZE\<rfloor> \<le> ?bottom" by (rule floor_mono)
    from "1.prems"(6) b1 b2 have nc: "\<not> ?coll" by (simp add: st)
    have ms: "m = moved + s"
      using lt "1.prems"(4) by (auto simp: m_def min_def)
    have more: "moved + s < dy"
      using lt "1.prems"(4) ms m(3) by (cases "moved + s < dy") (auto simp: m_def)
    have ih: "sweepY w newX py pw ph dy (moved + \<bar>?step\<bar>) ?nextY =
           Inl \<lparr>res_x = newX, res_y = of_int R * TILE_SIZE - ph / 2,
                grounded = True, hitX = False, hitY = True\<rparr>"
    proof (rule "1.IH" [OF go refl refl refl refl refl refl refl nc])
      show "0 \<le> moved + \<bar>?step\<bar>" using "1.prems"(1) s by (simp add: st)
      show "moved + \<bar>?step\<bar> < dy" using more by (simp add: st)
      show "py + ph / 2 + (moved + \<bar>?step\<bar>) - 1 < of_int R * TILE_SIZE"
        using lt ms by (simp add: st)
    qed (use "1.prems" in auto)
    from go nc show ?thesis
      by (subst sweepY.simps) (simp add: Let_def ih del: sweep.ext_inject)
  qed
qed

lemma aabbVsTiles_no_hitX:
  "\<not> hitX (aabbVsTiles w px py pw ph dx dy) \<Longrightarrow>
     aabbVsTiles w px py pw ph dx dy =
       (case (if dy \<noteq> 0 then sweepY w (px + dx) py pw ph dy 0 (py + dy) else Inr (py + dy)) of
          Inl r \<Rightarrow> r
        | Inr newY \<Rightarrow> \<lparr>res_x = px + dx, res_y = newY, grounded = False, hitX = False, hitY = False\<rparr>)"
  by (auto simp: aabbVsTiles_def Let_def split: sum.splits if_splits dest: sweepX_Inl sweepX_Inr)

lemma aabbVsTiles_dx0_no_hitX: "\<not> hitX (aabbVsTiles w px py pw ph 0 dy)"
  by (auto simp: aabbVsTiles_def Let_def split: sum.splits dest: sweepY_Inl)
text \<open>
  From the remaining gap plus one unit on, the snap is exact: if the box's bottom edge is
  at or above the top edge of row \<open>R\<close>, \<open>R\<close> holds a solid tile under the box, the rows
  between are free and no horizontal hit is reported, the call returns
  \<open>y = R * TILE_SIZE - ph / 2\<close> with \<open>grounded\<close> true.
\<close>

lemma snap_general:
  fixes R :: int
  assumes "\<not> hitX (aabbVsTiles w px py pw ph dx dy)"
    and "py + ph / 2 \<le> of_int R * TILE_SIZE"
    and "of_int R * TILE_SIZE - (py + ph / 2) + 1 \<le> dy"
    and "rowCollides w R \<lfloor>(px + dx - pw / 2) / TILE_SIZE\<rfloor> \<lfloor>(px + dx + pw / 2) / TILE_SIZE\<rfloor>"
    and "\<forall>r. \<lfloor>(py + ph / 2 - 1) / TILE_SIZE\<rfloor> \<le> r \<and> r < R \<longrightarrow>
           \<not> rowCollides w r \<lfloor>(px + dx - pw / 2) / TILE_SIZE\<rfloor> \<lfloor>(px + dx + pw / 2) / TILE_SIZE\<rfloor>"
  shows "aabbVsTiles w px py pw ph dx dy =
           \<lparr>res_x = px + dx, res_y = of_int R * TILE_SIZE - ph / 2,
            grounded = True, hitX = False, hitY = True\<rparr>"
proof -
  from assms(2,3) have dy: "0 < dy" by simp
  have "sweepY w (px + dx) py pw ph dy 0 (py + dy) =
           Inl \<lparr>res_x = px + dx, res_y = of_int R * TILE_SIZE - ph / 2,
                grounded = True, hitX = False, hitY = True\<rparr>"
    using dy assms(2-5) by (intro sweepY_snap) simp_all
  with dy show ?thesis
    by (simp add: aabbVsTiles_no_hitX [OF assms(1)])
qed

text \<open>A fall of 18 units from 10 units above the stone of \<open>flatWorld\<close>.\<close>

lemma flatWorld_landing:
  "aabbVsTiles flatWorld 2400 1557 18 34 0 18 =
     \<lparr>res_x = 2400, res_y = 1567, grounded = True, hitX = False, hitY = True\<rparr>"
proof -
  have "aabbVsTiles flatWorld 2400 1557 18 34 0 18 =
     \<lparr>res_x = 2400 + 0, res_y = of_int 66 * TILE_SIZE - 34 / 2,
      grounded = True, hitX = False, hitY = True\<rparr>"
  proof (rule snap_general)
    show "\<forall>r. \<lfloor>(1557 + 34 / 2 - 1) / TILE_SIZE\<rfloor> \<le> r \<and> r < 66 \<longrightarrow>
      \<not> rowCollides flatWorld r \<lfloor>(2400 + 0 - 18 / 2) / TILE_SIZE\<rfloor> \<lfloor>(2400 + 0 + 18 / 2) / TILE_SIZE\<rfloor>"
    proof (intro allI impI)
      fix r :: int
      assume "\<lfloor>(1557 + 34 / 2 - 1) / TILE_SIZE\<rfloor> \<le> r \<and> r < 66"
      then have "r = 65" by (simp add: TILE_SIZE_def)
      then show "\<not> rowCollides flatWorld r \<lfloor>(2400 + 0 - 18 / 2) / TILE_SIZE\<rfloor> \<lfloor>(2400 + 0 + 18 / 2) / TILE_SIZE\<rfloor>"
        by (simp add: TILE_SIZE_def flatWorld_row_65)
    qed
  qed (simp_all add: TILE_SIZE_def flatWorld_row_66 aabbVsTiles_dx0_no_hitX)
  then show ?thesis by (simp add: TILE_SIZE_def)
qed

text \<open>
  C3 on the code. The box (18 by 34) is 0.2 above the stone row 66 of \<open>flatWorld\<close> and
  asks for a downward delta of 0.6, more than the remaining gap. The sweep samples the row
  of \<open>bottom - 1\<close>, finds air, and returns the box 0.4 inside the stone, not grounded and
  with no hit, where the claim has \<open>y = 66 * 24 - 17 = 1567\<close> and grounded. The upward
  sweep has no such band: 0.2 below the solid row above the grid, a delta of \<open>- 0.6\<close>
  snaps to the row's edge. And a box at rest on the stone that asks for the 0.6 of one
  frame's gravity sinks by 0.6 and is not grounded.
\<close>

theorem downward_contact_not_snapped:
  "rowCollides flatWorld 66 \<lfloor>(2400 - 18 / 2) / TILE_SIZE\<rfloor> \<lfloor>(2400 + 18 / 2) / TILE_SIZE\<rfloor> \<and>
   66 * TILE_SIZE - (7834 / 5 + 34 / 2) = 1 / 5 \<and>
   aabbVsTiles flatWorld 2400 (7834 / 5) 18 34 0 (3 / 5) =
     \<lparr>res_x = 2400, res_y = 7837 / 5, grounded = False, hitX = False, hitY = False\<rparr> \<and>
   7837 / 5 + 34 / 2 - 66 * TILE_SIZE = 2 / 5 \<and>
   aabbVsTiles flatWorld 2400 (86 / 5) 18 34 0 (- 3 / 5) =
     \<lparr>res_x = 2400, res_y = 17, grounded = False, hitX = False, hitY = True\<rparr> \<and>
   restsOn flatWorld 2400 1567 18 34 \<and>
   aabbVsTiles flatWorld 2400 1567 18 34 0 (3 / 5) =
     \<lparr>res_x = 2400, res_y = 7838 / 5, grounded = False, hitX = False, hitY = False\<rparr>"
proof -
  have down: "sweepY flatWorld 2400 (7834 / 5) 18 34 (3 / 5) 0 (7837 / 5) = Inr (7837 / 5)"
    by (simp add: sweepY.simps [of _ _ _ _ _ _ 0] sweepY.simps [of _ _ _ _ _ _ "3 / 5"]
        TILE_SIZE_def flatWorld_row_65)
  have ceiling: "rowCollides flatWorld (- 1) 99 100"
    by (simp add: rowCollides.simps [of _ _ 99] getTile_flatWorld isSolid_def inBounds_def)
  have up: "sweepY flatWorld 2400 (86 / 5) 18 34 (- (3 / 5)) 0 (83 / 5) =
      Inl \<lparr>res_x = 2400, res_y = 17, grounded = False, hitX = False, hitY = True\<rparr>"
    by (simp add: sweepY.simps [of _ _ _ _ _ _ 0] TILE_SIZE_def ceiling)
  have rest: "sweepY flatWorld 2400 1567 18 34 (3 / 5) 0 (7838 / 5) = Inr (7838 / 5)"
    by (simp add: sweepY.simps [of _ _ _ _ _ _ 0] sweepY.simps [of _ _ _ _ _ _ "3 / 5"]
        TILE_SIZE_def flatWorld_row_65)
  show ?thesis
    by (simp add: aabbVsTiles_def down up rest restsOn_def TILE_SIZE_def flatWorld_row_66)
qed

section \<open>Weather\<close>

text \<open>The particle loops change neither the player nor the weather's type, intensity and time.\<close>

lemma spawnParticles_frame:
  "g_player (spawnParticles n i s) = g_player s \<and>
   randoms (spawnParticles n i s) = randoms s \<and>
   g_world (spawnParticles n i s) = g_world s \<and>
   wtype (weather (spawnParticles n i s)) = wtype (weather s) \<and>
   intensity (weather (spawnParticles n i s)) = intensity (weather s) \<and>
   timeLeft (weather (spawnParticles n i s)) = timeLeft (weather s)"
proof (induction "nat (n - i)" arbitrary: i s)
  case 0
  then show ?case by (simp add: spawnParticles.simps)
next
  case (Suc k)
  then have lt: "i < n" and k: "k = nat (n - (i + 1))" by auto
  show ?case
    using lt by (subst (1 2 3 4 5 6) spawnParticles.simps) (simp add: Let_def random_def Suc.hyps(1) [OF k])
qed

lemma moveParticles_frame:
  "g_player (moveParticles dt i s) = g_player s \<and>
   randoms (moveParticles dt i s) = randoms s \<and>
   wtype (weather (moveParticles dt i s)) = wtype (weather s) \<and>
   intensity (weather (moveParticles dt i s)) = intensity (weather s) \<and>
   timeLeft (weather (moveParticles dt i s)) = timeLeft (weather s)"
proof (induction "nat (i + 1)" arbitrary: i s)
  case 0
  then show ?case by (simp add: moveParticles.simps)
next
  case (Suc k)
  then have ge: "0 \<le> i" and k: "k = nat (i - 1 + 1)" by auto
  show ?case
    using ge by (subst (1 2 3 4 5) moveParticles.simps) (simp add: Let_def random_def Suc.hyps(1) [OF k])
qed

lemma updateWeatherParticles_frame:
  "g_player (updateWeatherParticles dt s) = g_player s \<and>
   randoms (updateWeatherParticles dt s) = randoms s \<and>
   wtype (weather (updateWeatherParticles dt s)) = wtype (weather s) \<and>
   intensity (weather (updateWeatherParticles dt s)) = intensity (weather s) \<and>
   timeLeft (weather (updateWeatherParticles dt s)) = timeLeft (weather s)"
  by (simp add: updateWeatherParticles_def Let_def moveParticles_frame spawnParticles_frame)

lemma updateWeatherParticles_clear:
  "wtype (weather s) = Clear \<Longrightarrow> updateWeatherParticles dt s = s"
  by (simp add: updateWeatherParticles_def)

lemma updateWeather_frame:
  "g_player (updateWeather dt s) = g_player s \<and> randoms (updateWeather dt s) = randoms s"
  by (simp add: updateWeather_def updateWeatherParticles_frame startNewWeather_def random_def
      Let_def split_beta)

text \<open>
  C8. From a state in which an active weather type has time left (as every state reached
  from the initial one has), one step of \<open>updateWeather\<close> with a positive \<open>dt\<close> leads
  to such a state again; it never goes from rain to storm or from storm to rain; while a
  type is active \<open>timeLeft\<close> strictly decreases; and on the step where \<open>timeLeft\<close> reaches
  zero or less the type is clear, the intensity 0 and the particle list empty.
  \<^verbatim>\<open>Math.random()\<close> returns non-negative values.
\<close>

theorem weather_machine:
  assumes "weatherActiveHasTime s" and "0 < dt" and "\<forall>k. 0 \<le> randoms s k"
  shows "weatherActiveHasTime (updateWeather dt s) \<and>
         \<not> (wtype (weather s) = Rain \<and> wtype (weather (updateWeather dt s)) = Storm) \<and>
         \<not> (wtype (weather s) = Storm \<and> wtype (weather (updateWeather dt s)) = Rain) \<and>
         (wtype (weather s) = Clear \<or> timeLeft (weather (updateWeather dt s)) < timeLeft (weather s)) \<and>
         (0 < timeLeft (weather s) \<and> timeLeft (weather s) - dt / 60 \<le> 0 \<longrightarrow>
            wtype (weather (updateWeather dt s)) = Clear \<and>
            intensity (weather (updateWeather dt s)) = 0 \<and>
            particles (weather (updateWeather dt s)) = [])"
proof (cases "0 < timeLeft (weather s)")
  case True
  show ?thesis
  proof (cases "timeLeft (weather s) - dt / 60 \<le> 0")
    case ended: True
    with True assms(2) show ?thesis
      by (simp add: updateWeather_def Let_def updateWeatherParticles_clear weatherActiveHasTime_def)
  next
    case False
    with True assms(2) show ?thesis
      by (simp add: updateWeather_def Let_def updateWeatherParticles_frame weatherActiveHasTime_def)
  qed
next
  case False
  with assms(1) have clear: "wtype (weather s) = Clear"
    by (auto simp: weatherActiveHasTime_def)
  have pos: "0 < 30 + randoms s k * 120" "0 < 20 + randoms s k * 60" for k
    using assms(3) [rule_format, of k] by (auto intro: add_pos_nonneg)
  from False clear show ?thesis
    by (simp add: updateWeather_def Let_def split_beta updateWeatherParticles_frame
        updateWeatherParticles_clear weatherActiveHasTime_def startNewWeather_def random_def pos)
qed

lemma initial_weather_reachable: "weatherActiveHasTime (s\<lparr>weather := initialWeather\<rparr>)"
  by (simp add: weatherActiveHasTime_def initialWeather_def)

theorem weather_machine_witness:
  "weatherActiveHasTime rainyGame \<and> (0::real) < 1 \<and> (\<forall>k. 0 \<le> randoms rainyGame k) \<and>
   wtype (weather rainyGame) = Rain \<and>
   timeLeft (weather (updateWeather 1 rainyGame)) < timeLeft (weather rainyGame) \<and>
   wtype (weather (updateWeather 1 rainyGame)) = Clear \<and>
   intensity (weather (updateWeather 1 rainyGame)) = 0 \<and>
   particles (weather (updateWeather 1 rainyGame)) = []"
proof -
  have 1: "weatherActiveHasTime rainyGame"
    by (simp add: weatherActiveHasTime_def rainyGame_def)
  have 2: "(0::real) < 1" by simp
  have 3: "\<forall>k. 0 \<le> randoms rainyGame k"
    by (simp add: rainyGame_def exampleGame_def)
  have 4: "wtype (weather rainyGame) = Rain"
    and 5: "0 < timeLeft (weather rainyGame) \<and> timeLeft (weather rainyGame) - 1 / 60 \<le> 0"
    by (simp_all add: rainyGame_def)
  from weather_machine [OF 1 2 3] 1 3 4 5 show ?thesis
    by simp
qed

section \<open>Health\<close>

lemma spawnScan_frame:
  "health (spawnScan w y p) = health p \<and> maxHealth (spawnScan w y p) = maxHealth p \<and>
   vy (spawnScan w y p) = vy p \<and> onGround (spawnScan w y p) = onGround p \<and>
   wasOnGround (spawnScan w y p) = wasOnGround p"
proof (induction "nat (WORLD_HEIGHT - y)" arbitrary: y)
  case 0
  then show ?case by (simp add: spawnScan.simps)
next
  case (Suc k)
  then have lt: "y < WORLD_HEIGHT" and k: "k = nat (WORLD_HEIGHT - (y + 1))" by auto
  show ?case
    using lt by (subst (1 2 3 4 5) spawnScan.simps) (simp add: Let_def Suc.hyps(1) [OF k])
qed

lemma damagePlayer_health:
  "0 \<le> amount \<Longrightarrow> healthInRange s \<Longrightarrow> healthInRange (damagePlayer amount s)"
  by (auto simp: damagePlayer_def healthInRange_def)

lemma damagePlayer_randoms: "randoms (damagePlayer amount s) = randoms s"
  by (simp add: damagePlayer_def)

lemma tickInvulnerability_health:
  "healthInRange (tickInvulnerability dt s) = healthInRange s \<and>
   randoms (tickInvulnerability dt s) = randoms s"
  by (simp add: tickInvulnerability_def healthInRange_def)

lemma applyFallDamage_health:
  "healthInRange s \<Longrightarrow> healthInRange (applyFallDamage s)"
  by (auto simp: applyFallDamage_def Let_def healthInRange_def damagePlayer_def)

lemma applyFallDamage_randoms: "randoms (applyFallDamage s) = randoms s"
  by (simp add: applyFallDamage_def Let_def damagePlayer_def)

lemma applyLightning_randoms: "randoms (applyLightning dt s) = randoms s"
  by (simp add: applyLightning_def Let_def random_def damagePlayer_def)

lemma applyLightning_health:
  assumes "healthInRange s" and "\<forall>k. 0 \<le> randoms s k"
  shows "healthInRange (applyLightning dt s)"
proof -
  have "0 \<le> 10 + real_of_int \<lfloor>randoms s k * 10\<rfloor>" for k
    using assms(2) [rule_format, of k] by (simp add: add_nonneg_nonneg)
  then have d: "healthInRange (damagePlayer (10 + real_of_int \<lfloor>randoms s k * 10\<rfloor>) s')"
    if "healthInRange s'" for k s'
    using that by (rule damagePlayer_health)
  have h: "healthInRange (s\<lparr>drawn := n\<rparr>)" for n
    using assms(1) by (simp add: healthInRange_def)
  show ?thesis
    using assms(1) by (simp add: applyLightning_def Let_def random_def d h)
qed

lemma regenerate_upper:
  "healthInRange s \<Longrightarrow>
     health (g_player (regenerate dt s)) \<le> maxHealth (g_player (regenerate dt s)) \<and>
     0 \<le> maxHealth (g_player (regenerate dt s)) \<and> randoms (regenerate dt s) = randoms s"
  by (auto simp: regenerate_def healthInRange_def)

lemma regenerate_health:
  "0 \<le> dt \<Longrightarrow> healthInRange s \<Longrightarrow> healthInRange (regenerate dt s)"
  by (auto simp: regenerate_def healthInRange_def)

lemma deathCheck_health:
  "health (g_player s) \<le> maxHealth (g_player s) \<Longrightarrow> 0 \<le> maxHealth (g_player s) \<Longrightarrow>
     healthInRange (deathCheck s)"
  by (auto simp: deathCheck_def healthInRange_def spawnPlayerOnSurface_def spawnScan_frame)

lemma deathCheck_randoms: "randoms (deathCheck s) = randoms s"
  by (simp add: deathCheck_def spawnPlayerOnSurface_def)

lemma updatePlayerHealth_randoms: "randoms (updatePlayerHealth dt s) = randoms s"
  by (simp add: updatePlayerHealth_def deathCheck_randoms regenerate_upper applyLightning_randoms
      applyFallDamage_randoms tickInvulnerability_health regenerate_def)

lemma updatePlayerHealth_health:
  assumes "healthInRange s" and "\<forall>k. 0 \<le> randoms s k"
  shows "healthInRange (updatePlayerHealth dt s)"
proof -
  let ?s1 = "tickInvulnerability dt s"
  let ?s2 = "applyFallDamage ?s1"
  let ?s3 = "applyLightning dt ?s2"
  have 1: "healthInRange ?s1" and r1: "\<forall>k. 0 \<le> randoms ?s1 k"
    using assms by (simp_all add: tickInvulnerability_health)
  have 2: "healthInRange ?s2" and r2: "\<forall>k. 0 \<le> randoms ?s2 k"
    using 1 r1 by (simp_all add: applyFallDamage_health applyFallDamage_randoms)
  have 3: "healthInRange ?s3"
    using 2 r2 by (rule applyLightning_health)
  from regenerate_upper [OF 3, of dt] show ?thesis
    unfolding updatePlayerHealth_def by (intro deathCheck_health) simp_all
qed

lemma movePlayer_shape:
  "\<exists>x1 v1 v f r.
     r = aabbVsTiles (g_world s) x1 (pos_y (g_player s)) (width (g_player s)) (height (g_player s)) 0 v \<and>
     movePlayer s =
       s\<lparr>g_player := (g_player s)
           \<lparr>pos_x := x1, pos_y := res_y r, vx := v1, vy := (if hitY r then 0 else v),
            facing := f, onGround := grounded r\<rparr>\<rparr>"
  unfolding movePlayer_def Let_def by (intro exI conjI) (rule refl)+

lemma movePlayer_frame:
  "health (g_player (movePlayer s)) = health (g_player s) \<and>
   maxHealth (g_player (movePlayer s)) = maxHealth (g_player s) \<and>
   wasOnGround (g_player (movePlayer s)) = wasOnGround (g_player s) \<and>
   randoms (movePlayer s) = randoms s"
proof -
  from movePlayer_shape [of s] obtain x1 v1 v f and r :: sweep where
    "movePlayer s =
       s\<lparr>g_player := (g_player s)
           \<lparr>pos_x := x1, pos_y := res_y r, vx := v1, vy := (if hitY r then 0 else v),
            facing := f, onGround := grounded r\<rparr>\<rparr>"
    by blast
  then show ?thesis by simp
qed

lemma followCamera_frame:
  "g_player (followCamera s) = g_player s \<and> randoms (followCamera s) = randoms s \<and>
   g_world (followCamera s) = g_world s \<and> inventory (followCamera s) = inventory s"
  unfolding followCamera_def Let_def by simp

lemma interact_frame:
  "g_player (interact s) = g_player s \<and> randoms (interact s) = randoms s"
  by (simp add: interact_def mine_def place_def Let_def)

lemma updateDayNight_frame:
  "g_player (updateDayNight dt s) = g_player s \<and> randoms (updateDayNight dt s) = randoms s"
  by (simp add: updateDayNight_def Let_def)

lemma update_randoms: "randoms (update dt s) = randoms s"
  by (simp add: update_def interact_frame followCamera_frame movePlayer_frame
      updatePlayerHealth_randoms updateWeather_frame updateDayNight_frame)

lemma update_health:
  assumes "healthInRange s" and "\<forall>k. 0 \<le> randoms s k"
  shows "healthInRange (update dt s)"
proof -
  let ?s2 = "updateWeather dt (updateDayNight dt s)"
  have "healthInRange ?s2" and "\<forall>k. 0 \<le> randoms ?s2 k"
    using assms by (simp_all add: healthInRange_def updateWeather_frame updateDayNight_frame)
  then have "healthInRange (updatePlayerHealth dt ?s2)"
    by (rule updatePlayerHealth_health)
  then show ?thesis
    by (simp add: update_def healthInRange_def interact_frame followCamera_frame movePlayer_frame)
qed

lemma perform_health:
  assumes "admissible operation" and "healthInRange s" and "\<forall>k. 0 \<le> randoms s k"
  shows "healthInRange (perform operation s) \<and> (\<forall>k. 0 \<le> randoms (perform operation s) k)"
proof (cases operation)
  case (Damage amount)
  with assms show ?thesis by (simp add: damagePlayer_health damagePlayer_randoms)
next
  case (Regenerate dt)
  with assms show ?thesis by (simp add: regenerate_health regenerate_upper)
next
  case Respawn
  with assms show ?thesis
    by (simp add: deathCheck_randoms) (rule deathCheck_health, auto simp: healthInRange_def)
next
  case (HealthUpdate dt)
  with assms show ?thesis by (simp add: updatePlayerHealth_health updatePlayerHealth_randoms)
next
  case (Frame dt)
  with assms show ?thesis by (simp add: update_health update_randoms)
next
  case (Input ks m i)
  with assms show ?thesis by (simp add: healthInRange_def)
qed

text \<open>
  C6. After every sequence of damage calls (with non-negative amounts), regeneration steps,
  death checks, health updates and whole frames, started with \<open>0 \<le> health \<le> maxHealth\<close>,
  the health is again between 0 and \<open>maxHealth\<close>.
\<close>

theorem health_stays_in_range:
  assumes "healthInRange s" and "\<forall>k. 0 \<le> randoms s k" and "list_all admissible ops"
  shows "0 \<le> health (g_player (run ops s)) \<and>
         health (g_player (run ops s)) \<le> maxHealth (g_player (run ops s))"
proof -
  from assms have "healthInRange (run ops s)"
  proof (induction ops arbitrary: s)
    case Nil
    then show ?case by simp
  next
    case (Cons operation ops)
    from Cons.prems have "healthInRange (perform operation s) \<and> (\<forall>k. 0 \<le> randoms (perform operation s) k)"
      by (intro perform_health) simp_all
    with Cons.prems Cons.IH [of "perform operation s"] show ?case by simp
  qed
  then show ?thesis by (simp add: healthInRange_def)
qed

theorem health_stays_in_range_witness:
  "healthInRange exampleGame \<and> (\<forall>k. 0 \<le> randoms exampleGame k) \<and>
   list_all admissible [Damage 150, Frame 1, Damage 30, HealthUpdate 1, Regenerate 1, Respawn] \<and>
   0 \<le> health (g_player (run [Damage 150, Frame 1, Damage 30, HealthUpdate 1, Regenerate 1, Respawn] exampleGame)) \<and>
   health (g_player (run [Damage 150, Frame 1, Damage 30, HealthUpdate 1, Regenerate 1, Respawn] exampleGame))
     \<le> maxHealth (g_player (run [Damage 150, Frame 1, Damage 30, HealthUpdate 1, Regenerate 1, Respawn] exampleGame))"
proof -
  have 1: "healthInRange exampleGame"
    by (simp add: healthInRange_def exampleGame_def initialPlayer_def)
  have 2: "\<forall>k. 0 \<le> randoms exampleGame k"
    by (simp add: exampleGame_def)
  have 3: "list_all admissible [Damage 150, Frame 1, Damage 30, HealthUpdate 1, Regenerate 1, Respawn]"
    by simp
  from health_stays_in_range [OF 1 2 3] 1 2 3 show ?thesis
    by blast
qed

section \<open>Placing\<close>

lemma intersectsPlayer_iff: "intersectsPlayer p tx ty \<longleftrightarrow> footprintOverlaps p tx ty"
  unfolding intersectsPlayer_def footprintOverlaps_def Let_def TILE_SIZE_def
  by (simp add: abs_less_iff) argo

text \<open>
  C5. A place attempt (the left button is not held, so the frame does not mine) is refused,
  and leaves the whole state, the grid and the inventory with it, as it is, whenever the
  target tile is not air, or the selected hotbar tile is air, or the inventory count of the
  selected tile is zero and the tile is not dirt, or the target tile's footprint overlaps
  the player's box.
\<close>

theorem place_refused:
  assumes "\<not> mouse_left (g_mouse s)"
    and "getTile (g_world s) (mouse_tx (g_mouse s)) (mouse_ty (g_mouse s)) \<noteq> AIR
       \<or> HOTBAR ! selectedHotbar s = AIR
       \<or> (count (inventory s) (HOTBAR ! selectedHotbar s) = 0 \<and> HOTBAR ! selectedHotbar s \<noteq> DIRT)
       \<or> footprintOverlaps (g_player s) (mouse_tx (g_mouse s)) (mouse_ty (g_mouse s))"
  shows "interact s = s \<and> g_world (interact s) = g_world s \<and> inventory (interact s) = inventory s"
proof -
  from assms(2) have "place s = s"
    by (auto simp: place_def Let_def count_def intersectsPlayer_iff split: option.splits)
  with assms(1) show ?thesis
    by (simp add: interact_def Let_def)
qed

theorem place_refused_witness:
  "\<not> mouse_left (g_mouse exampleGame) \<and> mouse_right (g_mouse exampleGame) \<and>
   count (inventory exampleGame) (HOTBAR ! selectedHotbar exampleGame) = 0 \<and>
   HOTBAR ! selectedHotbar exampleGame \<noteq> DIRT \<and>
   interact exampleGame = exampleGame \<and>
   g_world (interact exampleGame) = g_world exampleGame \<and>
   inventory (interact exampleGame) = inventory exampleGame"
proof -
  have 1: "\<not> mouse_left (g_mouse exampleGame)" and r: "mouse_right (g_mouse exampleGame)"
    by (simp_all add: exampleGame_def)
  have c: "count (inventory exampleGame) (HOTBAR ! selectedHotbar exampleGame) = 0 \<and>
      HOTBAR ! selectedHotbar exampleGame \<noteq> DIRT"
    by (simp add: exampleGame_def HOTBAR_def count_def)
  then have 2: "getTile (g_world exampleGame) (mouse_tx (g_mouse exampleGame)) (mouse_ty (g_mouse exampleGame)) \<noteq> AIR
       \<or> HOTBAR ! selectedHotbar exampleGame = AIR
       \<or> (count (inventory exampleGame) (HOTBAR ! selectedHotbar exampleGame) = 0 \<and>
            HOTBAR ! selectedHotbar exampleGame \<noteq> DIRT)
       \<or> footprintOverlaps (g_player exampleGame) (mouse_tx (g_mouse exampleGame)) (mouse_ty (g_mouse exampleGame))"
    by blast
  from place_refused [OF 1 2] 1 r c show ?thesis
    by blast
qed

section \<open>Fall damage\<close>

text \<open>
  \<open>movePlayer\<close> sets \<open>vy\<close> to 0 on every vertical hit, and \<open>onGround\<close> is true only after
  a vertical hit. So at the start of the next frame, where \<open>updatePlayerHealth\<close> tests
  \<open>vy > TERMINAL_VELOCITY * 0.8 \<and> onGround\<close>, the guard of the fall damage is false.
\<close>

lemma aabbVsTiles_grounded_hitY:
  "grounded (aabbVsTiles w px py pw ph dx dy) \<Longrightarrow> hitY (aabbVsTiles w px py pw ph dx dy)"
  by (auto simp: aabbVsTiles_def Let_def split: sum.splits if_splits dest: sweepX_Inl sweepY_Inl)

lemma movePlayer_landed:
  "onGround (g_player (movePlayer s)) \<Longrightarrow> vy (g_player (movePlayer s)) = 0"
proof -
  from movePlayer_shape [of s] obtain x1 v1 v f and r :: sweep where
    r: "r = aabbVsTiles (g_world s) x1 (pos_y (g_player s)) (width (g_player s)) (height (g_player s)) 0 v"
    and m: "movePlayer s =
       s\<lparr>g_player := (g_player s)
           \<lparr>pos_x := x1, pos_y := res_y r, vx := v1, vy := (if hitY r then 0 else v),
            facing := f, onGround := grounded r\<rparr>\<rparr>"
    by blast
  assume "onGround (g_player (movePlayer s))"
  with m have "grounded r" by simp
  with r have "hitY r" by (simp add: aabbVsTiles_grounded_hitY)
  with m show ?thesis by simp
qed

lemma no_fall_damage_due_after_update: "\<not> fallDamageDue (g_player (update dt s))"
proof
  assume a: "fallDamageDue (g_player (update dt s))"
  let ?s = "updatePlayerHealth dt (updateWeather dt (updateDayNight dt s))"
  have p: "g_player (update dt s) = g_player (movePlayer ?s)"
    by (simp add: update_def interact_frame followCamera_frame)
  from a p have "onGround (g_player (movePlayer ?s))" and "vy (g_player (movePlayer ?s)) > TERMINAL_VELOCITY * 0.8"
    by (simp_all add: fallDamageDue_def)
  with movePlayer_landed [of ?s] show False
    by (simp add: TERMINAL_VELOCITY_def)
qed

lemma update_health_eq:
  "health (g_player (update dt s)) =
     health (g_player (updatePlayerHealth dt (updateWeather dt (updateDayNight dt s))))"
  by (simp add: update_def interact_frame followCamera_frame movePlayer_frame)

lemma fallingGame_lands: "update 1 fallingGame = landedGame"
  apply (simp add: update_def fallingGame_def exampleGame_def initialPlayer_def initialWeather_def
     updateDayNight_def js_rem_def DAY_NIGHT_CYCLE_DURATION_def DAY_PORTION_def
     updateWeather_def random_def updateWeatherParticles_def
     updatePlayerHealth_def tickInvulnerability_def applyFallDamage_def fallDamageDue_def applyLightning_def
     regenerate_def deathCheck_def TERMINAL_VELOCITY_def WORLD_WIDTH_def WORLD_HEIGHT_def TILE_SIZE_def)
  apply (unfold movePlayer_def Let_def)
  apply (simp add: TERMINAL_VELOCITY_def GRAVITY_def AIR_ACCEL_def FRICTION_def MAX_RUN_SPEED_def
      flatWorld_landing aabbVsTiles_def [of _ _ _ _ _ 0 0])
  apply (unfold followCamera_def interact_def Let_def)
  apply (simp add: WORLD_WIDTH_def WORLD_HEIGHT_def TILE_SIZE_def)
  apply (simp add: landedGame_def initialWeather_def)
  done

text \<open>
  C7 on the code. The player of \<open>fallingGame\<close> reaches the ground at terminal velocity
  (18, above the trigger of 14.4), for which the damage formula gives 27. The frame of the
  landing and the frame after it both leave the health at 100.
\<close>

theorem landing_at_terminal_velocity_undamaged:
  "\<not> onGround (g_player fallingGame) \<and>
   min TERMINAL_VELOCITY (vy (g_player fallingGame) + GRAVITY) = 18 \<and>
   max 0 \<lfloor>(18 - TERMINAL_VELOCITY * 0.7) * 5\<rfloor> = 27 \<and>
   onGround (g_player (update 1 fallingGame)) \<and>
   \<not> wasOnGround (g_player (update 1 fallingGame)) \<and>
   vy (g_player (update 1 fallingGame)) = 0 \<and>
   health (g_player (update 1 fallingGame)) = 100 \<and>
   health (g_player (update 1 (update 1 fallingGame))) = 100"
proof -
  have "health (g_player (update 1 (update 1 fallingGame))) = 100"
    by (subst update_health_eq) (simp add: fallingGame_lands landedGame_def initialWeather_def
     updateDayNight_def js_rem_def DAY_NIGHT_CYCLE_DURATION_def DAY_PORTION_def
     updateWeather_def random_def updateWeatherParticles_def
     updatePlayerHealth_def tickInvulnerability_def applyFallDamage_def fallDamageDue_def applyLightning_def
     regenerate_def deathCheck_def TERMINAL_VELOCITY_def)
  moreover have "\<not> onGround (g_player fallingGame) \<and>
     min TERMINAL_VELOCITY (vy (g_player fallingGame) + GRAVITY) = 18 \<and>
     max 0 \<lfloor>(18 - TERMINAL_VELOCITY * 0.7) * 5\<rfloor> = 27"
    by (simp add: fallingGame_def exampleGame_def initialPlayer_def TERMINAL_VELOCITY_def GRAVITY_def)
  ultimately show ?thesis
    by (simp add: fallingGame_lands landedGame_def)
qed

section \<open>World generation\<close>

subsection \<open>Cells of a well-formed grid\<close>

lemma wellFormed_put: "wellFormed w \<Longrightarrow> wellFormed (put w y x t)"
proof -
  assume wf: "wellFormed w"
  have "int (length (w[nat y := (w ! nat y)[nat x := t]] ! n)) = WORLD_WIDTH" if "n < length w" for n
  proof (cases "n = nat y")
    case True
    with that wf show ?thesis by (simp add: wellFormed_def list_all_length)
  next
    case False
    with that wf show ?thesis by (simp add: wellFormed_def list_all_length)
  qed
  with wf show ?thesis
    by (simp add: wellFormed_def put_def list_all_length)
qed

lemma cell_put:
  assumes "wellFormed w" "0 \<le> y" "y < WORLD_HEIGHT" "0 \<le> x" "x < WORLD_WIDTH"
    and "0 \<le> y'" "y' < WORLD_HEIGHT" "0 \<le> x'" "x' < WORLD_WIDTH"
  shows "cell (put w y x t) y' x' = (if y' = y \<and> x' = x then t else cell w y' x')"
proof -
  from assms have ly: "nat y < length w" "nat y' < length w"
    by (auto simp: wellFormed_def)
  with assms have lx: "nat x < length (w ! nat y)"
    by (auto simp: wellFormed_def list_all_length)
  from assms have eq: "nat y' = nat y \<longleftrightarrow> y' = y" "nat x' = nat x \<longleftrightarrow> x' = x" by auto
  show ?thesis
    using ly lx eq by (auto simp: cell_def put_def nth_list_update)
qed

lemma world_eqI:
  assumes "wellFormed w1" "wellFormed w2"
    and "\<And>y x. 0 \<le> y \<Longrightarrow> y < WORLD_HEIGHT \<Longrightarrow> 0 \<le> x \<Longrightarrow> x < WORLD_WIDTH \<Longrightarrow> cell w1 y x = cell w2 y x"
  shows "w1 = w2"
proof (rule nth_equalityI)
  from assms(1,2) show len: "length w1 = length w2" by (simp add: wellFormed_def)
  fix i assume i: "i < length w1"
  with assms(1) have iH: "int i < WORLD_HEIGHT" by (simp add: wellFormed_def)
  from i len assms(1,2) have l1: "int (length (w1 ! i)) = WORLD_WIDTH" and l2: "int (length (w2 ! i)) = WORLD_WIDTH"
    by (auto simp: wellFormed_def list_all_length)
  show "w1 ! i = w2 ! i"
  proof (rule nth_equalityI)
    from l1 l2 show "length (w1 ! i) = length (w2 ! i)" by simp
    fix j assume "j < length (w1 ! i)"
    with l1 have "int j < WORLD_WIDTH" by simp
    with iH assms(3) [of "int i" "int j"] show "w1 ! i ! j = w2 ! i ! j"
      by (simp add: cell_def)
  qed
qed

lemma getTile_cell: "inBounds x y \<Longrightarrow> getTile w x y = cell w y x"
  by (simp add: getTile_def cell_def)

lemma wellFormed_emptyWorld: "wellFormed emptyWorld"
  by (simp add: wellFormed_def emptyWorld_def list_all_iff WORLD_WIDTH_def WORLD_HEIGHT_def)

lemma layerColumn_cells:
  assumes "wellFormed w" "0 \<le> x" "x < WORLD_WIDTH" "0 \<le> y"
  shows "wellFormed (layerColumn groundY biome x y w) \<and>
         (\<forall>y' x'. 0 \<le> y' \<and> y' < WORLD_HEIGHT \<and> 0 \<le> x' \<and> x' < WORLD_WIDTH \<longrightarrow>
            cell (layerColumn groundY biome x y w) y' x' =
              (if x' = x \<and> y \<le> y' then layerTile groundY biome y' else cell w y' x'))"
  using assms
proof (induction "nat (WORLD_HEIGHT - y)" arbitrary: y w)
  case 0
  then show ?case by (subst (1 2) layerColumn.simps) auto
next
  case (Suc k)
  then have lt: "y < WORLD_HEIGHT" and k: "k = nat (WORLD_HEIGHT - (y + 1))" by auto
  let ?w = "put w y x (layerTile groundY biome y)"
  have wf: "wellFormed ?w" using Suc.prems(1) by (rule wellFormed_put)
  have ih: "wellFormed (layerColumn groundY biome x (y + 1) ?w) \<and>
         (\<forall>y' x'. 0 \<le> y' \<and> y' < WORLD_HEIGHT \<and> 0 \<le> x' \<and> x' < WORLD_WIDTH \<longrightarrow>
            cell (layerColumn groundY biome x (y + 1) ?w) y' x' =
              (if x' = x \<and> y + 1 \<le> y' then layerTile groundY biome y' else cell ?w y' x'))"
    using Suc.prems by (intro Suc.hyps(1) [OF k wf]) auto
  have step: "layerColumn groundY biome x y w = layerColumn groundY biome x (y + 1) ?w"
    using lt by (subst layerColumn.simps) simp
  show ?case
    unfolding step using ih Suc.prems lt
    by (auto simp: cell_put)
qed

subsection \<open>What the loops of the generator write\<close>

lemma patchRow_cells:
  assumes "wellFormed w" "0 \<le> yy" "yy < WORLD_HEIGHT" "0 \<le> xx"
  shows "wellFormed (patchRow x sw yy xx w) \<and>
         (\<forall>y' x'. 0 \<le> y' \<and> y' < WORLD_HEIGHT \<and> 0 \<le> x' \<and> x' < WORLD_WIDTH \<longrightarrow>
            cell (patchRow x sw yy xx w) y' x' =
              (if y' = yy \<and> xx \<le> x' \<and> x' < x + sw \<and> cell w y' x' \<noteq> AIR then STONE
               else cell w y' x'))"
  using assms
proof (induction "nat (WORLD_WIDTH - xx)" arbitrary: xx w)
  case 0
  then show ?case by (subst (1 2) patchRow.simps) auto
next
  case (Suc k)
  then have lt: "xx < WORLD_WIDTH" and k: "k = nat (WORLD_WIDTH - (xx + 1))" by auto
  show ?case
  proof (cases "xx < x + sw")
    case False
    then show ?thesis using Suc.prems by (subst (1 2) patchRow.simps) auto
  next
    case True
    let ?w = "if cell w yy xx \<noteq> AIR then put w yy xx STONE else w"
    have wf: "wellFormed ?w" using Suc.prems(1) by (simp add: wellFormed_put)
    have ih: "wellFormed (patchRow x sw yy (xx + 1) ?w) \<and>
         (\<forall>y' x'. 0 \<le> y' \<and> y' < WORLD_HEIGHT \<and> 0 \<le> x' \<and> x' < WORLD_WIDTH \<longrightarrow>
            cell (patchRow x sw yy (xx + 1) ?w) y' x' =
              (if y' = yy \<and> xx + 1 \<le> x' \<and> x' < x + sw \<and> cell ?w y' x' \<noteq> AIR then STONE
               else cell ?w y' x'))"
      using Suc.prems by (intro Suc.hyps(1) [OF k wf]) auto
    have step: "patchRow x sw yy xx w = patchRow x sw yy (xx + 1) ?w"
      using lt True by (subst patchRow.simps) simp
    show ?thesis
      unfolding step
    proof (intro conjI allI impI)
      show "wellFormed (patchRow x sw yy (xx + 1) ?w)" using ih by simp
      fix y' x'
      assume r: "0 \<le> y' \<and> y' < WORLD_HEIGHT \<and> 0 \<le> x' \<and> x' < WORLD_WIDTH"
      have c: "cell ?w y' x' =
          (if cell w yy xx \<noteq> AIR \<and> y' = yy \<and> x' = xx then STONE else cell w y' x')"
        using Suc.prems lt r by (simp add: cell_put)
      from ih r have "cell (patchRow x sw yy (xx + 1) ?w) y' x' =
              (if y' = yy \<and> xx + 1 \<le> x' \<and> x' < x + sw \<and> cell ?w y' x' \<noteq> AIR then STONE
               else cell ?w y' x')"
        by blast
      then show "cell (patchRow x sw yy (xx + 1) ?w) y' x' =
              (if y' = yy \<and> xx \<le> x' \<and> x' < x + sw \<and> cell w y' x' \<noteq> AIR then STONE
               else cell w y' x')"
        unfolding c using True by (cases "x' = xx") auto
    qed
  qed
qed

lemma patchRows_cells:
  assumes "wellFormed w" "0 \<le> yy" "0 \<le> x"
  shows "wellFormed (patchRows x sy sh sw yy w) \<and>
         (\<forall>y' x'. 0 \<le> y' \<and> y' < WORLD_HEIGHT \<and> 0 \<le> x' \<and> x' < WORLD_WIDTH \<longrightarrow>
            cell (patchRows x sy sh sw yy w) y' x' =
              (if yy \<le> y' \<and> y' < sy + sh \<and> x \<le> x' \<and> x' < x + sw \<and> cell w y' x' \<noteq> AIR
               then STONE else cell w y' x'))"
  using assms
proof (induction "nat (WORLD_HEIGHT - yy)" arbitrary: yy w)
  case 0
  then show ?case by (subst (1 2) patchRows.simps) auto
next
  case (Suc k)
  then have lt: "yy < WORLD_HEIGHT" and k: "k = nat (WORLD_HEIGHT - (yy + 1))" by auto
  show ?case
  proof (cases "yy < sy + sh")
    case False
    then show ?thesis using Suc.prems by (subst (1 2) patchRows.simps) auto
  next
    case True
    let ?w = "patchRow x sw yy x w"
    from patchRow_cells [OF Suc.prems(1,2) lt Suc.prems(3), of x sw]
    have wf: "wellFormed ?w"
      and row: "\<And>y' x'. 0 \<le> y' \<Longrightarrow> y' < WORLD_HEIGHT \<Longrightarrow> 0 \<le> x' \<Longrightarrow> x' < WORLD_WIDTH \<Longrightarrow>
            cell ?w y' x' =
              (if y' = yy \<and> x \<le> x' \<and> x' < x + sw \<and> cell w y' x' \<noteq> AIR then STONE
               else cell w y' x')"
      by auto
    have ih: "wellFormed (patchRows x sy sh sw (yy + 1) ?w) \<and>
         (\<forall>y' x'. 0 \<le> y' \<and> y' < WORLD_HEIGHT \<and> 0 \<le> x' \<and> x' < WORLD_WIDTH \<longrightarrow>
            cell (patchRows x sy sh sw (yy + 1) ?w) y' x' =
              (if yy + 1 \<le> y' \<and> y' < sy + sh \<and> x \<le> x' \<and> x' < x + sw \<and> cell ?w y' x' \<noteq> AIR
               then STONE else cell ?w y' x'))"
      using Suc.prems by (intro Suc.hyps(1) [OF k wf]) auto
    have step: "patchRows x sy sh sw yy w = patchRows x sy sh sw (yy + 1) ?w"
      using lt True by (subst patchRows.simps) simp
    show ?thesis
      unfolding step using ih Suc.prems lt True
      by (auto simp: row)
  qed
qed

lemma growTree_cells:
  assumes "wellFormed w" "0 \<le> x" "x < WORLD_WIDTH" "groundY \<le> WORLD_HEIGHT" "0 \<le> ty"
  shows "wellFormed (growTree groundY x treeHeight ty w) \<and>
         (\<forall>y' x'. 0 \<le> y' \<and> y' < WORLD_HEIGHT \<and> 0 \<le> x' \<and> x' < WORLD_WIDTH \<longrightarrow>
            cell (growTree groundY x treeHeight ty w) y' x' =
              (if x' = x \<and> groundY - treeHeight \<le> y' \<and> y' < groundY - ty then WOOD
               else cell w y' x'))"
  using assms
proof (induction "nat (treeHeight - ty)" arbitrary: ty w)
  case 0
  then show ?case by (subst (1 2) growTree.simps) auto
next
  case (Suc k)
  then have lt: "ty < treeHeight" and k: "k = nat (treeHeight - (ty + 1))" by auto
  let ?w = "if groundY - ty - 1 \<ge> 0 then put w (groundY - ty - 1) x WOOD else w"
  have wf: "wellFormed ?w" using Suc.prems(1) by (simp add: wellFormed_put)
  have ih: "wellFormed (growTree groundY x treeHeight (ty + 1) ?w) \<and>
         (\<forall>y' x'. 0 \<le> y' \<and> y' < WORLD_HEIGHT \<and> 0 \<le> x' \<and> x' < WORLD_WIDTH \<longrightarrow>
            cell (growTree groundY x treeHeight (ty + 1) ?w) y' x' =
              (if x' = x \<and> groundY - treeHeight \<le> y' \<and> y' < groundY - (ty + 1) then WOOD
               else cell ?w y' x'))"
    using Suc.prems by (intro Suc.hyps(1) [OF k wf]) auto
  have step: "growTree groundY x treeHeight ty w = growTree groundY x treeHeight (ty + 1) ?w"
    using lt by (subst growTree.simps) (simp add: Let_def)
  show ?case
    unfolding step using ih Suc.prems lt
    by (auto simp: cell_put)
qed

subsection \<open>One column\<close>

text \<open>\<^verbatim>\<open>rand()\<close> returns a value in \<open>[0, 1)\<close> and adds a constant to the state.\<close>

lemma mulberry32_shape:
  "\<exists>w :: 32 word. mulberry32 a = (real_of_int (uint w) / 4294967296, a + 1831565813)"
  unfolding mulberry32_def Let_def by (intro exI) (rule refl)

lemma mulberry32_range: "0 \<le> fst (mulberry32 a) \<and> fst (mulberry32 a) < 1"
proof -
  from mulberry32_shape [of a] obtain w :: "32 word"
    where w: "mulberry32 a = (real_of_int (uint w) / 4294967296, a + 1831565813)" by blast
  have "uint w < 4294967296"
    using uint_bounded [of w] by simp
  then have "real_of_int (uint w) < real_of_int 4294967296"
    by (simp only: of_int_less_iff)
  moreover have "real_of_int 0 \<le> real_of_int (uint w)"
    by (simp only: of_int_le_iff uint_ge_0)
  ultimately show ?thesis
    unfolding w by simp
qed

lemma snd_mulberry32: "snd (mulberry32 a) = a + 1831565813"
  using mulberry32_shape [of a] by auto

lemma genColumn_cells:
  assumes wf: "wellFormed w" and x: "0 \<le> x" "x < WORLD_WIDTH"
    and g: "0 \<le> heights ! nat x" "heights ! nat x \<le> WORLD_HEIGHT"
  shows "wellFormed (fst (genColumn heights biomes x (w, a))) \<and>
         (\<forall>y' x'. 0 \<le> y' \<and> y' < WORLD_HEIGHT \<and> 0 \<le> x' \<and> x' \<le> x \<longrightarrow>
            cell (fst (genColumn heights biomes x (w, a))) y' x' =
              (if x' = x then columnTile (heights ! nat x) (biomes ! nat x) a y'
               else cell w y' x'))"
proof -
  define groundY where "groundY = heights ! nat x"
  define biome where "biome = biomes ! nat x"
  define w1 where "w1 = layerColumn groundY biome x 0 w"
  define r where "r = fst (mulberry32 a)"
  define a1 where "a1 = snd (mulberry32 a)"
  define sy where "sy = groundY + 5 + \<lfloor>fst (mulberry32 a1) * 10\<rfloor>"
  define b1 where "b1 = snd (mulberry32 a1)"
  define sh where "sh = 3 + \<lfloor>fst (mulberry32 b1) * 4\<rfloor>"
  define b2 where "b2 = snd (mulberry32 b1)"
  define sw where "sw = 3 + \<lfloor>fst (mulberry32 b2) * 6\<rfloor>"
  define b3 where "b3 = snd (mulberry32 b2)"
  define w2 where "w2 = (if r < 0.1 then patchRows x sy sh sw sy w1 else w1)"
  define a2 where "a2 = (if r < 0.1 then b3 else a1)"
  define r4 where "r4 = fst (mulberry32 a2)"
  define treeHeight where "treeHeight = 5 + \<lfloor>fst (mulberry32 (snd (mulberry32 a2))) * 3\<rfloor>"
  define w3 where "w3 = (if biome = Forest \<and> r4 < 0.03 then growTree groundY x treeHeight 0 w2 else w2)"
  have res: "fst (genColumn heights biomes x (w, a)) = w3"
    by (simp add: genColumn_def Let_def split_beta w3_def w2_def w1_def r_def a1_def sy_def b1_def
        sh_def b2_def sw_def b3_def a2_def r4_def treeHeight_def groundY_def biome_def)
  have tile: "columnTile groundY biome a y =
      (if biome = Forest \<and> r4 < 0.03 \<and> groundY - treeHeight \<le> y \<and> y < groundY then WOOD
       else if r < 0.1 \<and> sy \<le> y \<and> y < sy + sh \<and> layerTile groundY biome y \<noteq> AIR then STONE
       else layerTile groundY biome y)" for y
    by (simp add: columnTile_def Let_def split_beta r_def a1_def sy_def b1_def
        sh_def b2_def b3_def a2_def r4_def treeHeight_def)
  have fl: "0 \<le> \<lfloor>fst (mulberry32 s) * k\<rfloor>" if "0 \<le> k" for s and k :: real
    using mulberry32_range [of s] that by simp
  have sy0: "0 \<le> sy"
    unfolding sy_def groundY_def using g(1) fl [of 10 a1] by linarith
  have sw0: "0 < sw"
    unfolding sw_def using fl [of 6 b2] by linarith
  from layerColumn_cells [OF wf x, of 0 groundY biome]
  have wf1: "wellFormed w1"
    and c1: "\<And>y' x'. 0 \<le> y' \<Longrightarrow> y' < WORLD_HEIGHT \<Longrightarrow> 0 \<le> x' \<Longrightarrow> x' < WORLD_WIDTH \<Longrightarrow>
        cell w1 y' x' = (if x' = x then layerTile groundY biome y' else cell w y' x')"
    by (auto simp: w1_def)
  from patchRows_cells [OF wf1 sy0 x(1), of sy sh sw]
  have wf2: "wellFormed w2"
    and c2: "\<And>y' x'. 0 \<le> y' \<Longrightarrow> y' < WORLD_HEIGHT \<Longrightarrow> 0 \<le> x' \<Longrightarrow> x' < WORLD_WIDTH \<Longrightarrow>
        cell w2 y' x' = (if r < 0.1 \<and> sy \<le> y' \<and> y' < sy + sh \<and> x \<le> x' \<and> x' < x + sw \<and> cell w1 y' x' \<noteq> AIR
               then STONE else cell w1 y' x')"
    using wf1 by (auto simp: w2_def)
  from growTree_cells [OF wf2 x, of groundY 0 treeHeight] g(2)
  have wf3: "wellFormed w3"
    and c3: "\<And>y' x'. 0 \<le> y' \<Longrightarrow> y' < WORLD_HEIGHT \<Longrightarrow> 0 \<le> x' \<Longrightarrow> x' < WORLD_WIDTH \<Longrightarrow>
        cell w3 y' x' = (if biome = Forest \<and> r4 < 0.03 \<and> x' = x \<and> groundY - treeHeight \<le> y' \<and> y' < groundY
               then WOOD else cell w2 y' x')"
    using wf2 by (auto simp: w3_def groundY_def)
  show ?thesis
    unfolding res groundY_def [symmetric] biome_def [symmetric]
  proof (intro conjI allI impI)
    show "wellFormed w3" by (rule wf3)
    fix y' x'
    assume "0 \<le> y' \<and> y' < WORLD_HEIGHT \<and> 0 \<le> x' \<and> x' \<le> x"
    with x have r: "0 \<le> y'" "y' < WORLD_HEIGHT" "0 \<le> x'" "x' < WORLD_WIDTH" and le: "x' \<le> x"
      by auto
    show "cell w3 y' x' = (if x' = x then columnTile groundY biome a y' else cell w y' x')"
      unfolding c3 [OF r] c2 [OF r] c1 [OF r] tile using sw0 le by auto
  qed
qed

lemma genColumn_rng:
  "snd (genColumn heights biomes x (w, a)) = snd (genColumn heights biomes x (w', a))"
  by (simp add: genColumn_def Let_def split_beta)

subsection \<open>The height map and the column loop\<close>

lemma genHeights_range:
  assumes "0 \<le> x" "x \<le> WORLD_WIDTH" "length heights = nat x"
    and "\<forall>h \<in> set heights. 20 \<le> h \<and> h \<le> WORLD_HEIGHT - 15"
  shows "length (fst (genHeights x h a heights)) = nat WORLD_WIDTH \<and>
         (\<forall>h' \<in> set (fst (genHeights x h a heights)). 20 \<le> h' \<and> h' \<le> WORLD_HEIGHT - 15) \<and>
         snd (genHeights x h a heights) = a + 2 * (WORLD_WIDTH - x) * 1831565813"
  using assms
proof (induction "nat (WORLD_WIDTH - x)" arbitrary: x h a heights)
  case 0
  then show ?case by (subst (1 2 3) genHeights.simps) auto
next
  case (Suc k)
  then have lt: "x < WORLD_WIDTH" and k: "k = nat (WORLD_WIDTH - (x + 1))" by auto
  define h2 where "h2 = max 20 (min (WORLD_HEIGHT - 15)
      (h + sign ((fst (mulberry32 a) - 0.5) * 2) *
        (if fst (mulberry32 (snd (mulberry32 a))) < 0.55 then 1 else 0)))"
  define a2 where "a2 = snd (mulberry32 (snd (mulberry32 a)))"
  have step: "genHeights x h a heights = genHeights (x + 1) h2 a2 (heights @ [h2])"
    using lt by (subst genHeights.simps) (simp add: Let_def split_beta h2_def a2_def)
  have h2: "20 \<le> h2 \<and> h2 \<le> WORLD_HEIGHT - 15"
    by (auto simp: h2_def WORLD_HEIGHT_def)
  have a2: "a2 = a + 2 * 1831565813"
    by (simp add: a2_def snd_mulberry32)
  have "length (fst (genHeights (x + 1) h2 a2 (heights @ [h2]))) = nat WORLD_WIDTH \<and>
         (\<forall>h' \<in> set (fst (genHeights (x + 1) h2 a2 (heights @ [h2]))). 20 \<le> h' \<and> h' \<le> WORLD_HEIGHT - 15) \<and>
         snd (genHeights (x + 1) h2 a2 (heights @ [h2])) = a2 + 2 * (WORLD_WIDTH - (x + 1)) * 1831565813"
    using Suc.prems lt h2 by (intro Suc.hyps(1) [OF k]) auto
  then show ?case
    unfolding step a2 by (simp add: algebra_simps)
qed

lemma genBiomes_length:
  assumes "0 \<le> x" "x \<le> WORLD_WIDTH" "length biomes = nat x"
  shows "length (fst (genBiomes x c l a biomes)) = nat WORLD_WIDTH"
  using assms
proof (induction "nat (WORLD_WIDTH - x)" arbitrary: x c l a biomes)
  case 0
  then show ?case by (subst genBiomes.simps) auto
next
  case (Suc k)
  then have lt: "x < WORLD_WIDTH" and k: "k = nat (WORLD_WIDTH - (x + 1))" by auto
  show ?case
    using lt Suc.prems
    by (subst genBiomes.simps) (auto simp: Let_def split_beta intro!: Suc.hyps(1) [OF k])
qed

text \<open>The columns left of \<open>x\<close> are final when the loop reaches \<open>x\<close>.\<close>

lemma genColumns_cells:
  assumes "wellFormed w" "0 \<le> x0"
    and "\<forall>x. 0 \<le> x \<and> x < WORLD_WIDTH \<longrightarrow> 0 \<le> heights ! nat x \<and> heights ! nat x \<le> WORLD_HEIGHT"
  shows "wellFormed (fst (genColumns heights biomes x0 (w, a))) \<and>
         (\<forall>y' x'. 0 \<le> y' \<and> y' < WORLD_HEIGHT \<and> 0 \<le> x' \<and> x' < x0 \<and> x' < WORLD_WIDTH \<longrightarrow>
            cell (fst (genColumns heights biomes x0 (w, a))) y' x' = cell w y' x') \<and>
         (\<forall>x. x0 \<le> x \<and> x < WORLD_WIDTH \<longrightarrow>
            (\<exists>a'. \<forall>y'. 0 \<le> y' \<and> y' < WORLD_HEIGHT \<longrightarrow>
               cell (fst (genColumns heights biomes x0 (w, a))) y' x =
                 columnTile (heights ! nat x) (biomes ! nat x) a' y'))"
  using assms(1,2)
proof (induction "nat (WORLD_WIDTH - x0)" arbitrary: x0 w a)
  case 0
  then show ?case by (subst (1 2 3) genColumns.simps) auto
next
  case (Suc k)
  then have lt: "x0 < WORLD_WIDTH" and k: "k = nat (WORLD_WIDTH - (x0 + 1))" by auto
  define w1 where "w1 = fst (genColumn heights biomes x0 (w, a))"
  define a1 where "a1 = snd (genColumn heights biomes x0 (w, a))"
  have step: "genColumns heights biomes x0 (w, a) = genColumns heights biomes (x0 + 1) (w1, a1)"
    using lt by (subst genColumns.simps) (simp add: w1_def a1_def)
  from assms(3) Suc.prems(2) lt have g: "0 \<le> heights ! nat x0" "heights ! nat x0 \<le> WORLD_HEIGHT"
    by auto
  from genColumn_cells [OF Suc.prems(1,2) lt g, of biomes a]
  have wf1: "wellFormed w1"
    and c1: "\<And>y' x'. 0 \<le> y' \<Longrightarrow> y' < WORLD_HEIGHT \<Longrightarrow> 0 \<le> x' \<Longrightarrow> x' \<le> x0 \<Longrightarrow>
        cell w1 y' x' = (if x' = x0 then columnTile (heights ! nat x0) (biomes ! nat x0) a y'
               else cell w y' x')"
    unfolding w1_def [symmetric] by auto
  have ih: "wellFormed (fst (genColumns heights biomes (x0 + 1) (w1, a1))) \<and>
         (\<forall>y' x'. 0 \<le> y' \<and> y' < WORLD_HEIGHT \<and> 0 \<le> x' \<and> x' < x0 + 1 \<and> x' < WORLD_WIDTH \<longrightarrow>
            cell (fst (genColumns heights biomes (x0 + 1) (w1, a1))) y' x' = cell w1 y' x') \<and>
         (\<forall>x. x0 + 1 \<le> x \<and> x < WORLD_WIDTH \<longrightarrow>
            (\<exists>a'. \<forall>y'. 0 \<le> y' \<and> y' < WORLD_HEIGHT \<longrightarrow>
               cell (fst (genColumns heights biomes (x0 + 1) (w1, a1))) y' x =
                 columnTile (heights ! nat x) (biomes ! nat x) a' y'))"
    using Suc.prems(2) by (intro Suc.hyps(1) [OF k wf1]) simp
  show ?case
    unfolding step
  proof (intro conjI allI impI)
    show "wellFormed (fst (genColumns heights biomes (x0 + 1) (w1, a1)))" using ih by simp
  next
    fix y' x'
    assume r: "0 \<le> y' \<and> y' < WORLD_HEIGHT \<and> 0 \<le> x' \<and> x' < x0 \<and> x' < WORLD_WIDTH"
    with ih have "cell (fst (genColumns heights biomes (x0 + 1) (w1, a1))) y' x' = cell w1 y' x'"
      by simp
    with r show "cell (fst (genColumns heights biomes (x0 + 1) (w1, a1))) y' x' = cell w y' x'"
      by (simp add: c1)
  next
    fix x
    assume x: "x0 \<le> x \<and> x < WORLD_WIDTH"
    show "\<exists>a'. \<forall>y'. 0 \<le> y' \<and> y' < WORLD_HEIGHT \<longrightarrow>
               cell (fst (genColumns heights biomes (x0 + 1) (w1, a1))) y' x =
                 columnTile (heights ! nat x) (biomes ! nat x) a' y'"
    proof (cases "x = x0")
      case False
      with x ih show ?thesis by simp
    next
      case True
      have "\<forall>y'. 0 \<le> y' \<and> y' < WORLD_HEIGHT \<longrightarrow>
               cell (fst (genColumns heights biomes (x0 + 1) (w1, a1))) y' x =
                 columnTile (heights ! nat x) (biomes ! nat x) a y'"
        using ih True Suc.prems(2) lt by (simp add: c1)
      then show ?thesis ..
    qed
  qed
qed

text \<open>
  The result of the column loop does not depend on what the grid held in the columns from
  \<open>x\<close> on when the loop reached \<open>x\<close>.
\<close>

lemma genColumns_agree:
  assumes "wellFormed w1" "wellFormed w2" "0 \<le> x0"
    and "\<forall>x. 0 \<le> x \<and> x < WORLD_WIDTH \<longrightarrow> 0 \<le> heights ! nat x \<and> heights ! nat x \<le> WORLD_HEIGHT"
    and "\<forall>y' x'. 0 \<le> y' \<and> y' < WORLD_HEIGHT \<and> 0 \<le> x' \<and> x' < x0 \<and> x' < WORLD_WIDTH \<longrightarrow>
           cell w1 y' x' = cell w2 y' x'"
  shows "genColumns heights biomes x0 (w1, a) = genColumns heights biomes x0 (w2, a)"
  using assms(1,2,3,5)
proof (induction "nat (WORLD_WIDTH - x0)" arbitrary: x0 w1 w2 a)
  case 0
  then have "w1 = w2" by (intro world_eqI) auto
  then show ?case by simp
next
  case (Suc k)
  then have lt: "x0 < WORLD_WIDTH" and k: "k = nat (WORLD_WIDTH - (x0 + 1))" by auto
  define v1 where "v1 = fst (genColumn heights biomes x0 (w1, a))"
  define v2 where "v2 = fst (genColumn heights biomes x0 (w2, a))"
  define a1 where "a1 = snd (genColumn heights biomes x0 (w1, a))"
  have a1': "a1 = snd (genColumn heights biomes x0 (w2, a))"
    unfolding a1_def by (rule genColumn_rng)
  have step1: "genColumns heights biomes x0 (w1, a) = genColumns heights biomes (x0 + 1) (v1, a1)"
    using lt by (subst genColumns.simps) (simp add: v1_def a1_def)
  have step2: "genColumns heights biomes x0 (w2, a) = genColumns heights biomes (x0 + 1) (v2, a1)"
    using lt by (subst genColumns.simps) (simp add: v2_def a1')
  from assms(4) Suc.prems(3) lt have g: "0 \<le> heights ! nat x0" "heights ! nat x0 \<le> WORLD_HEIGHT"
    by auto
  from genColumn_cells [OF Suc.prems(1,3) lt g, of biomes a]
  have wf1: "wellFormed v1"
    and c1: "\<And>y' x'. 0 \<le> y' \<Longrightarrow> y' < WORLD_HEIGHT \<Longrightarrow> 0 \<le> x' \<Longrightarrow> x' \<le> x0 \<Longrightarrow>
        cell v1 y' x' = (if x' = x0 then columnTile (heights ! nat x0) (biomes ! nat x0) a y'
               else cell w1 y' x')"
    unfolding v1_def [symmetric] by auto
  from genColumn_cells [OF Suc.prems(2,3) lt g, of biomes a]
  have wf2: "wellFormed v2"
    and c2: "\<And>y' x'. 0 \<le> y' \<Longrightarrow> y' < WORLD_HEIGHT \<Longrightarrow> 0 \<le> x' \<Longrightarrow> x' \<le> x0 \<Longrightarrow>
        cell v2 y' x' = (if x' = x0 then columnTile (heights ! nat x0) (biomes ! nat x0) a y'
               else cell w2 y' x')"
    unfolding v2_def [symmetric] by auto
  have "genColumns heights biomes (x0 + 1) (v1, a1) = genColumns heights biomes (x0 + 1) (v2, a1)"
  proof (rule Suc.hyps(1) [OF k wf1 wf2])
    show "0 \<le> x0 + 1" using Suc.prems(3) by simp
    show "\<forall>y' x'. 0 \<le> y' \<and> y' < WORLD_HEIGHT \<and> 0 \<le> x' \<and> x' < x0 + 1 \<and> x' < WORLD_WIDTH \<longrightarrow>
           cell v1 y' x' = cell v2 y' x'"
      using Suc.prems(4) by (auto simp: c1 c2)
  qed
  then show ?case by (simp add: step1 step2)
qed

lemma heightsOf_range:
  "0 \<le> x \<Longrightarrow> x < WORLD_WIDTH \<Longrightarrow> 20 \<le> heightsOf seed ! nat x \<and> heightsOf seed ! nat x \<le> WORLD_HEIGHT - 15"
proof -
  assume x: "0 \<le> x" "x < WORLD_WIDTH"
  from genHeights_range [of 0 "[]" "\<lfloor>real_of_int WORLD_HEIGHT * 0.55\<rfloor>" seed]
  have len: "length (heightsOf seed) = nat WORLD_WIDTH"
    and all: "\<forall>h' \<in> set (heightsOf seed). 20 \<le> h' \<and> h' \<le> WORLD_HEIGHT - 15"
    by (simp_all add: heightsOf_def WORLD_WIDTH_def)
  from x len have "heightsOf seed ! nat x \<in> set (heightsOf seed)"
    by (intro nth_mem) simp
  with all show ?thesis by blast
qed

lemma generateWorld_eq:
  "generateWorld seed w =
     fst (genColumns (heightsOf seed) (biomesOf seed) 0
            (w, snd (genBiomes 0 Forest
                  (20 + \<lfloor>fst (mulberry32 (snd (genHeights 0 \<lfloor>real_of_int WORLD_HEIGHT * 0.55\<rfloor> seed []))) * 30\<rfloor>)
                  (snd (mulberry32 (snd (genHeights 0 \<lfloor>real_of_int WORLD_HEIGHT * 0.55\<rfloor> seed []))))
                  [])))"
  by (simp add: generateWorld_def heightsOf_def biomesOf_def Let_def split_beta)

lemma heightsOf_ok:
  "\<forall>x. 0 \<le> x \<and> x < WORLD_WIDTH \<longrightarrow> 0 \<le> heightsOf seed ! nat x \<and> heightsOf seed ! nat x \<le> WORLD_HEIGHT"
  using heightsOf_range [of _ seed] by fastforce

text \<open>
  The later \<open>generateWorld\<close> is a function of the seed alone: whatever well-formed grid it
  finds, it leaves the same grid. In particular a second call with the same seed reproduces
  the grid of the first.
\<close>

lemma generateWorld_wellFormed: "wellFormed w \<Longrightarrow> wellFormed (generateWorld seed w)"
  unfolding generateWorld_eq using genColumns_cells [OF _ _ heightsOf_ok, of w 0 seed] by simp

lemma generateWorld_deterministic:
  assumes "wellFormed w1" "wellFormed w2"
  shows "generateWorld seed w1 = generateWorld seed w2"
proof -
  have "genColumns (heightsOf seed) biomes 0 (w1, a) = genColumns (heightsOf seed) biomes 0 (w2, a)"
    for biomes a
    using assms by (intro genColumns_agree heightsOf_ok) auto
  then show ?thesis
    unfolding generateWorld_eq by (rule arg_cong)
qed

lemma generateWorld_twice:
  "wellFormed w \<Longrightarrow> generateWorld seed (generateWorld seed w) = generateWorld seed w"
  by (rule generateWorld_deterministic) (simp_all add: generateWorld_wellFormed)

lemma generateWorld_column:
  assumes "wellFormed w" "0 \<le> x" "x < WORLD_WIDTH"
  shows "\<exists>a'. \<forall>y. 0 \<le> y \<and> y < WORLD_HEIGHT \<longrightarrow>
           getTile (generateWorld seed w) x y = columnTile (heightsOf seed ! nat x) (biomesOf seed ! nat x) a' y"
proof -
  from genColumns_cells [OF assms(1) _ heightsOf_ok, of 0 seed] assms(2,3)
  obtain a' where "\<forall>y'. 0 \<le> y' \<and> y' < WORLD_HEIGHT \<longrightarrow>
      cell (generateWorld seed w) y' x = columnTile (heightsOf seed ! nat x) (biomesOf seed ! nat x) a' y'"
    unfolding generateWorld_eq by fastforce
  with assms(2,3) have "\<forall>y. 0 \<le> y \<and> y < WORLD_HEIGHT \<longrightarrow>
           getTile (generateWorld seed w) x y = columnTile (heightsOf seed ! nat x) (biomesOf seed ! nat x) a' y"
    by (simp add: getTile_cell inBounds_def)
  then show ?thesis ..
qed

lemma columnTile_forest_surface: "columnTile g Forest a g = GRASS"
proof -
  have fl: "0 \<le> \<lfloor>fst (mulberry32 s) * 10\<rfloor>" for s
    using mulberry32_range [of s] by simp
  have "\<not> g + 5 + \<lfloor>fst (mulberry32 s) * 10\<rfloor> \<le> g" for s
    using fl [of s] by linarith
  then show ?thesis
    by (simp add: columnTile_def Let_def split_beta layerTile_def)
qed

lemma columnTile_forest_above: "y < g \<Longrightarrow> columnTile g Forest a y = AIR \<or> columnTile g Forest a y = WOOD"
  by (simp add: columnTile_def Let_def split_beta layerTile_def)

lemma spawnScan_first:
  assumes "0 \<le> y0" "y0 \<le> g" "g < WORLD_HEIGHT"
    and "getTile w 100 g = GRASS"
    and "\<forall>y. y0 \<le> y \<and> y < g \<longrightarrow> getTile w 100 y \<noteq> GRASS"
  shows "spawnScan w y0 p = p\<lparr>pos_x := 100 * TILE_SIZE, pos_y := (real_of_int g - 2) * TILE_SIZE\<rparr>"
  using assms(1,2,5)
proof (induction "nat (g - y0)" arbitrary: y0)
  case 0
  then have "y0 = g" by simp
  with assms(3,4) show ?case
    by (subst spawnScan.simps) (simp add: WORLD_WIDTH_def)
next
  case (Suc k)
  then have lt: "y0 < g" and k: "k = nat (g - (y0 + 1))" by auto
  with Suc.prems have ng: "getTile w 100 y0 \<noteq> GRASS" by simp
  have "spawnScan w y0 p = spawnScan w (y0 + 1) p"
    using lt assms(3) ng by (subst spawnScan.simps) (simp add: WORLD_WIDTH_def)
  also have "\<dots> = p\<lparr>pos_x := 100 * TILE_SIZE, pos_y := (real_of_int g - 2) * TILE_SIZE\<rparr>"
    using Suc.prems lt by (intro Suc.hyps(1) [OF k]) auto
  finally show ?case .
qed

text \<open>Spawning on a generated grid whose centre column lies in a forest.\<close>

lemma spawn_in_forest:
  assumes "wellFormed w" and "biomesOf seed ! 100 = Forest"
  shows "getTile (generateWorld seed w) 100 (heightsOf seed ! 100) = GRASS \<and>
         (\<forall>y. 0 \<le> y \<and> y < heightsOf seed ! 100 \<longrightarrow>
            getTile (generateWorld seed w) 100 y = AIR \<or> getTile (generateWorld seed w) 100 y = WOOD) \<and>
         spawnScan (generateWorld seed w) 0 p =
           p\<lparr>pos_x := 100 * TILE_SIZE, pos_y := (real_of_int (heightsOf seed ! 100) - 2) * TILE_SIZE\<rparr>"
proof -
  define g where "g = heightsOf seed ! 100"
  from heightsOf_range [of 100 seed] have g: "20 \<le> g" "g \<le> WORLD_HEIGHT - 15"
    by (simp_all add: g_def WORLD_WIDTH_def)
  from generateWorld_column [OF assms(1), of 100 seed] assms(2)
  obtain a' where col: "\<And>y. 0 \<le> y \<Longrightarrow> y < WORLD_HEIGHT \<Longrightarrow>
      getTile (generateWorld seed w) 100 y = columnTile g Forest a' y"
    by (auto simp: WORLD_WIDTH_def g_def)
  have surf: "getTile (generateWorld seed w) 100 g = GRASS"
    using g by (simp add: col columnTile_forest_surface)
  have above: "getTile (generateWorld seed w) 100 y = AIR \<or> getTile (generateWorld seed w) 100 y = WOOD"
    if "0 \<le> y" "y < g" for y
    using that g columnTile_forest_above [of y g a'] by (simp add: col)
  have "spawnScan (generateWorld seed w) 0 p =
      p\<lparr>pos_x := 100 * TILE_SIZE, pos_y := (real_of_int g - 2) * TILE_SIZE\<rparr>"
  proof (rule spawnScan_first)
    show "\<forall>y. 0 \<le> y \<and> y < g \<longrightarrow> getTile (generateWorld seed w) 100 y \<noteq> GRASS"
      using above by fastforce
  qed (use g surf in auto)
  with surf above show ?thesis
    unfolding g_def by blast
qed

subsection \<open>Seed 1337\<close>

text \<open>
  The biome list: after the 400 calls of the height map the state is
  \<open>1337 + 400 * 0x6d2b79f5\<close>; the first forest run has 23 columns, the desert run after it
  39, and column 100 lies in the forest run that starts at column 62.
\<close>

lemma genBiomes_keep:
  "x < WORLD_WIDTH \<Longrightarrow> 0 < l \<Longrightarrow>
     genBiomes x c l a biomes = genBiomes (x + 1) c (l - 1) a (biomes @ [c])"
  by (subst genBiomes.simps) (simp add: Let_def)

lemma genBiomes_switch:
  "x < WORLD_WIDTH \<Longrightarrow> l \<le> 0 \<Longrightarrow>
     genBiomes x c l a biomes =
       genBiomes (x + 1) (if c = Forest then Desert else Forest)
         (20 + \<lfloor>fst (mulberry32 a) * 30\<rfloor> - 1) (a + 1831565813)
         (biomes @ [if c = Forest then Desert else Forest])"
  by (subst genBiomes.simps) (simp add: Let_def split_beta snd_mulberry32)

lemma genBiomes_done: "\<not> x < WORLD_WIDTH \<Longrightarrow> genBiomes x c l a biomes = (biomes, a)"
  by (subst genBiomes.simps) simp

lemma seed_1337_after_heights:
  "snd (genHeights 0 \<lfloor>real_of_int WORLD_HEIGHT * 0.55\<rfloor> 1337 []) = 732626326537"
  using genHeights_range [of 0 "[]" "\<lfloor>real_of_int WORLD_HEIGHT * 0.55\<rfloor>" 1337]
  by (simp add: WORLD_WIDTH_def)

lemma seed_1337_first_run: "mulberry32 732626326537 = (252223693 / 2147483648, 734457892350)"
  by (simp add: mulberry32_def)

lemma seed_1337_biomes_start: "biomesOf 1337 = fst (genBiomes 0 Forest 23 734457892350 [])"
  unfolding biomesOf_def seed_1337_after_heights Let_def seed_1337_first_run by simp

lemma seed_1337_biomes: "biomesOf 1337 ! 100 = Forest"
  unfolding seed_1337_biomes_start
  by (simp add: genBiomes_keep genBiomes_switch genBiomes_done WORLD_WIDTH_def mulberry32_def)

text \<open>The height of column 100: 101 steps of the walk, evaluated in four parts.\<close>

lemma genHeights_prefix:
  "i < length heights \<Longrightarrow> fst (genHeights x h a heights) ! i = heights ! i"
proof (induction "nat (WORLD_WIDTH - x)" arbitrary: x h a heights)
  case 0
  then show ?case by (subst genHeights.simps) simp
next
  case (Suc k)
  then have lt: "x < WORLD_WIDTH" and k: "k = nat (WORLD_WIDTH - (x + 1))" by auto
  show ?case
    using lt Suc.prems
    by (subst genHeights.simps) (simp add: Let_def split_beta Suc.hyps(1) [OF k] nth_append)
qed

lemma genHeights_step:
  "x < WORLD_WIDTH \<Longrightarrow>
     genHeights x h a heights =
       genHeights (x + 1) (heightStep h a) (a + 3663131626) (heights @ [heightStep h a])"
  by (subst genHeights.simps) (simp add: Let_def split_beta heightStep_def snd_mulberry32 add.commute)

lemma genHeights_nth:
  "0 \<le> x \<Longrightarrow> length heights = nat x \<Longrightarrow> x + int n < WORLD_WIDTH \<Longrightarrow>
     fst (genHeights x h a heights) ! (nat x + n) = walk (Suc n) h a"
proof (induction n arbitrary: x h a heights)
  case 0
  then show ?case
    by (simp add: genHeights_step genHeights_prefix nth_append)
next
  case (Suc n)
  from Suc.prems have lt: "x < WORLD_WIDTH" by simp
  have "fst (genHeights (x + 1) (heightStep h a) (a + 3663131626) (heights @ [heightStep h a])) !
          (nat (x + 1) + n) = walk (Suc n) (heightStep h a) (a + 3663131626)"
    using Suc.prems by (intro Suc.IH) auto
  moreover have "nat (x + 1) + n = nat x + Suc n"
    using Suc.prems(1) by simp
  ultimately show ?case
    by (simp add: genHeights_step [OF lt])
qed

lemma walk_add: "walk (m + n) h a = walk n (walk m h a) (a + int m * 3663131626)"
  by (induction m arbitrary: h a) (simp_all add: algebra_simps)

lemma walk_numeral:
  "walk (numeral k) h a = walk (pred_numeral k) (heightStep h a) (a + 3663131626)"
  by (simp add: numeral_eq_Suc)

lemma seed_1337_walk_1: "walk 25 66 1337 = 62"
  by (simp add: walk_numeral heightStep_def mulberry32_def sign_def WORLD_HEIGHT_def)

lemma seed_1337_walk_2: "walk 25 62 91578291987 = 59"
  by (simp add: walk_numeral heightStep_def mulberry32_def sign_def WORLD_HEIGHT_def)

lemma seed_1337_walk_3: "walk 25 59 183156582637 = 59"
  by (simp add: walk_numeral heightStep_def mulberry32_def sign_def WORLD_HEIGHT_def)

lemma seed_1337_walk_4: "walk 26 59 274734873287 = 65"
  by (simp add: walk_numeral heightStep_def mulberry32_def sign_def WORLD_HEIGHT_def)

lemma seed_1337_height: "heightsOf 1337 ! 100 = 65"
proof -
  have "heightsOf 1337 ! 100 = walk 101 66 1337"
    using genHeights_nth [of 0 "[]" 100 66 1337]
    by (simp add: heightsOf_def WORLD_WIDTH_def WORLD_HEIGHT_def)
  also have "\<dots> = walk (25 + (25 + (25 + 26))) 66 1337" by simp
  also have "\<dots> = 65"
    unfolding walk_add by (simp add: seed_1337_walk_1 seed_1337_walk_2 seed_1337_walk_3 seed_1337_walk_4)
  finally show ?thesis .
qed

text \<open>
  C9. On the grid that \<open>generateWorld 1337\<close> leaves, started from the empty grid of the
  module, the centre column 100 has grass in row 65 and no grass above it (only air or wood),
  and \<open>spawnPlayerOnSurface\<close> puts the player at \<open>x = 100 * TILE_SIZE\<close> and
  \<open>y = (65 - 2) * TILE_SIZE\<close>: two tile heights above the first grass tile met scanning
  down from row 0.
\<close>

theorem spawn_on_seed_1337:
  "getTile (generateWorld 1337 emptyWorld) 100 65 = GRASS \<and>
   list_all (\<lambda>y. getTile (generateWorld 1337 emptyWorld) 100 y = AIR \<or>
                 getTile (generateWorld 1337 emptyWorld) 100 y = WOOD) [0..64] \<and>
   spawnPlayerOnSurface (s\<lparr>g_world := generateWorld 1337 emptyWorld\<rparr>) =
     s\<lparr>g_world := generateWorld 1337 emptyWorld,
       g_player := (g_player s)\<lparr>pos_x := 100 * TILE_SIZE, pos_y := (65 - 2) * TILE_SIZE\<rparr>\<rparr>"
proof -
  note f = spawn_in_forest [OF wellFormed_emptyWorld seed_1337_biomes, unfolded seed_1337_height]
  from f [of "g_player s"] have "spawnScan (generateWorld 1337 emptyWorld) 0 (g_player s) =
      (g_player s)\<lparr>pos_x := 100 * TILE_SIZE, pos_y := (65 - 2) * TILE_SIZE\<rparr>"
    by simp
  then have "spawnPlayerOnSurface (s\<lparr>g_world := generateWorld 1337 emptyWorld\<rparr>) =
     s\<lparr>g_world := generateWorld 1337 emptyWorld,
       g_player := (g_player s)\<lparr>pos_x := 100 * TILE_SIZE, pos_y := (65 - 2) * TILE_SIZE\<rparr>\<rparr>"
    by (simp add: spawnPlayerOnSurface_def)
  moreover from f [of "g_player s"] have "list_all (\<lambda>y. getTile (generateWorld 1337 emptyWorld) 100 y = AIR \<or>
                 getTile (generateWorld 1337 emptyWorld) 100 y = WOOD) [0..64]"
    by (simp add: list_all_iff)
  moreover from f [of "g_player s"] have "getTile (generateWorld 1337 emptyWorld) 100 65 = GRASS"
    by simp
  ultimately show ?thesis by blast
qed

subsection \<open>The generator of the earlier \<^verbatim>\<open>main.js\<close>\<close>

lemma layerTile_main_eq: "layerTile_main groundY y = layerTile groundY Forest y"
  by (simp add: layerTile_main_def layerTile_def)

lemma layerColumn_main_eq: "layerColumn_main groundY x y w = layerColumn groundY Forest x y w"
proof (induction "nat (WORLD_HEIGHT - y)" arbitrary: y w)
  case 0
  then show ?case by (subst layerColumn_main.simps, subst layerColumn.simps) simp
next
  case (Suc k)
  then have lt: "y < WORLD_HEIGHT" and k: "k = nat (WORLD_HEIGHT - (y + 1))" by auto
  show ?case
    using lt
    by (subst layerColumn_main.simps, subst layerColumn.simps)
       (simp add: layerTile_main_eq Suc.hyps(1) [OF k])
qed

lemma genColumn_main_cells:
  assumes wf: "wellFormed w" and x: "0 \<le> x" "x < WORLD_WIDTH" and g: "0 \<le> heights ! nat x"
  shows "wellFormed (fst (genColumn_main heights mr x (w, a, k))) \<and>
         (\<forall>y' x'. 0 \<le> y' \<and> y' < WORLD_HEIGHT \<and> 0 \<le> x' \<and> x' \<le> x \<longrightarrow>
            cell (fst (genColumn_main heights mr x (w, a, k))) y' x' =
              (if x' = x then
                 (if mr k < 0.1 \<and> heights ! nat x + 5 + \<lfloor>fst (mulberry32 a) * 10\<rfloor> \<le> y' \<and>
                     y' < heights ! nat x + 5 + \<lfloor>fst (mulberry32 a) * 10\<rfloor> +
                            (3 + \<lfloor>fst (mulberry32 (snd (mulberry32 a))) * 4\<rfloor>) \<and>
                     layerTile_main (heights ! nat x) y' \<noteq> AIR
                  then STONE else layerTile_main (heights ! nat x) y')
               else cell w y' x'))"
proof -
  define groundY where "groundY = heights ! nat x"
  define w1 where "w1 = layerColumn groundY Forest x 0 w"
  define sy where "sy = groundY + 5 + \<lfloor>fst (mulberry32 a) * 10\<rfloor>"
  define b1 where "b1 = snd (mulberry32 a)"
  define sh where "sh = 3 + \<lfloor>fst (mulberry32 b1) * 4\<rfloor>"
  define b2 where "b2 = snd (mulberry32 b1)"
  define sw where "sw = 3 + \<lfloor>fst (mulberry32 b2) * 6\<rfloor>"
  define w2 where "w2 = (if mr k < 0.1 then patchRows x sy sh sw sy w1 else w1)"
  have res: "fst (genColumn_main heights mr x (w, a, k)) = w2"
    by (simp add: genColumn_main_def Let_def split_beta w2_def w1_def sy_def b1_def
        sh_def b2_def sw_def groundY_def layerColumn_main_eq)
  have fl: "0 \<le> \<lfloor>fst (mulberry32 s) * c\<rfloor>" if "0 \<le> c" for s and c :: real
    using mulberry32_range [of s] that by simp
  have sy0: "0 \<le> sy"
    unfolding sy_def groundY_def using g fl [of 10 a] by linarith
  have sw0: "0 < sw"
    unfolding sw_def using fl [of 6 b2] by linarith
  from layerColumn_cells [OF wf x, of 0 groundY Forest]
  have wf1: "wellFormed w1"
    and c1: "\<And>y' x'. 0 \<le> y' \<Longrightarrow> y' < WORLD_HEIGHT \<Longrightarrow> 0 \<le> x' \<Longrightarrow> x' < WORLD_WIDTH \<Longrightarrow>
        cell w1 y' x' = (if x' = x then layerTile groundY Forest y' else cell w y' x')"
    by (auto simp: w1_def)
  from patchRows_cells [OF wf1 sy0 x(1), of sy sh sw]
  have wf2: "wellFormed w2"
    and c2: "\<And>y' x'. 0 \<le> y' \<Longrightarrow> y' < WORLD_HEIGHT \<Longrightarrow> 0 \<le> x' \<Longrightarrow> x' < WORLD_WIDTH \<Longrightarrow>
        cell w2 y' x' = (if mr k < 0.1 \<and> sy \<le> y' \<and> y' < sy + sh \<and> x \<le> x' \<and> x' < x + sw \<and> cell w1 y' x' \<noteq> AIR
               then STONE else cell w1 y' x')"
    using wf1 by (auto simp: w2_def)
  show ?thesis
    unfolding res groundY_def [symmetric] sy_def [symmetric] b1_def [symmetric] sh_def [symmetric]
  proof (intro conjI allI impI)
    show "wellFormed w2" by (rule wf2)
    fix y' x'
    assume "0 \<le> y' \<and> y' < WORLD_HEIGHT \<and> 0 \<le> x' \<and> x' \<le> x"
    with x have r: "0 \<le> y'" "y' < WORLD_HEIGHT" "0 \<le> x'" "x' < WORLD_WIDTH" and le: "x' \<le> x"
      by auto
    show "cell w2 y' x' =
        (if x' = x then
           (if mr k < 0.1 \<and> sy \<le> y' \<and> y' < sy + sh \<and> layerTile_main groundY y' \<noteq> AIR
            then STONE else layerTile_main groundY y')
         else cell w y' x')"
      unfolding c2 [OF r] c1 [OF r] layerTile_main_eq using sw0 le by auto
  qed
qed

lemma genColumns_main_frame:
  assumes "wellFormed w" "0 \<le> x0"
    and "\<forall>x. 0 \<le> x \<and> x < WORLD_WIDTH \<longrightarrow> 0 \<le> heights ! nat x \<and> heights ! nat x \<le> WORLD_HEIGHT"
  shows "wellFormed (fst (genColumns_main heights mr x0 (w, a, k))) \<and>
         (\<forall>y' x'. 0 \<le> y' \<and> y' < WORLD_HEIGHT \<and> 0 \<le> x' \<and> x' < x0 \<and> x' < WORLD_WIDTH \<longrightarrow>
            cell (fst (genColumns_main heights mr x0 (w, a, k))) y' x' = cell w y' x')"
  using assms(1,2)
proof (induction "nat (WORLD_WIDTH - x0)" arbitrary: x0 w a k)
  case 0
  then show ?case by (subst (1 2) genColumns_main.simps) auto
next
  case (Suc n)
  then have lt: "x0 < WORLD_WIDTH" and n: "n = nat (WORLD_WIDTH - (x0 + 1))" by auto
  obtain w1 a1 k1 where st: "genColumn_main heights mr x0 (w, a, k) = (w1, a1, k1)"
    by (cases "genColumn_main heights mr x0 (w, a, k)") auto
  have step: "genColumns_main heights mr x0 (w, a, k) = genColumns_main heights mr (x0 + 1) (w1, a1, k1)"
    using lt by (subst genColumns_main.simps) (simp add: st)
  from assms(3) Suc.prems(2) lt have g: "0 \<le> heights ! nat x0" by auto
  from genColumn_main_cells [OF Suc.prems(1,2) lt g, of mr a k]
  have wf1: "wellFormed w1"
    and c1: "\<And>y' x'. 0 \<le> y' \<Longrightarrow> y' < WORLD_HEIGHT \<Longrightarrow> 0 \<le> x' \<Longrightarrow> x' < x0 \<Longrightarrow> cell w1 y' x' = cell w y' x'"
    unfolding st by auto
  have ih: "wellFormed (fst (genColumns_main heights mr (x0 + 1) (w1, a1, k1))) \<and>
         (\<forall>y' x'. 0 \<le> y' \<and> y' < WORLD_HEIGHT \<and> 0 \<le> x' \<and> x' < x0 + 1 \<and> x' < WORLD_WIDTH \<longrightarrow>
            cell (fst (genColumns_main heights mr (x0 + 1) (w1, a1, k1))) y' x' = cell w1 y' x')"
    using Suc.prems(2) by (intro Suc.hyps(1) [OF n wf1]) simp
  show ?case
    unfolding step using ih by (auto simp: c1)
qed

text \<open>
  The generator of \<^verbatim>\<open>main.js\<close> depends on \<^verbatim>\<open>Math.random\<close>: with the same seed
  and the same grid to start from, a run in which \<^verbatim>\<open>Math.random()\<close> returns 0.05
  and a run in which it returns 0.5 leave different tiles in column 0 (stone where the other
  has dirt).
\<close>

lemma generateWorld_main_wellFormed:
  "wellFormed w \<Longrightarrow> wellFormed (generateWorld_main seed mr w)"
  using genColumns_main_frame [OF _ _ heightsOf_ok, of w 0 seed mr]
  by (simp add: generateWorld_main_def Let_def split_beta heightsOf_def)

lemma generateWorld_main_unseeded:
  assumes w1: "wellFormed w1" and w2: "wellFormed w2"
  shows "generateWorld_main seed (\<lambda>k. 1 / 20) w1 \<noteq> generateWorld_main seed (\<lambda>k. 1 / 2) w2"
proof -
  define hs where "hs = heightsOf seed"
  define a where "a = snd (genHeights 0 \<lfloor>real_of_int WORLD_HEIGHT * 0.55\<rfloor> seed [])"
  define g where "g = hs ! 0"
  define sy where "sy = g + 5 + \<lfloor>fst (mulberry32 a) * 10\<rfloor>"
  define sh where "sh = 3 + \<lfloor>fst (mulberry32 (snd (mulberry32 a))) * 4\<rfloor>"
  have ok: "\<forall>x. 0 \<le> x \<and> x < WORLD_WIDTH \<longrightarrow> 0 \<le> hs ! nat x \<and> hs ! nat x \<le> WORLD_HEIGHT"
    unfolding hs_def by (rule heightsOf_ok)
  from heightsOf_range [of 0 seed] have g: "20 \<le> g" "g \<le> WORLD_HEIGHT - 15"
    by (simp_all add: g_def hs_def WORLD_WIDTH_def)
  have fl: "0 \<le> \<lfloor>fst (mulberry32 s) * c\<rfloor>" if "0 \<le> c" for s and c :: real
    using mulberry32_range [of s] that by simp
  have "fst (mulberry32 a) * 10 < 10" using mulberry32_range [of a] by simp
  then have fu: "\<lfloor>fst (mulberry32 a) * 10\<rfloor> < 10" by (simp add: floor_less_iff)
  have sy: "g + 5 \<le> sy" "sy \<le> g + 14" "0 < sh"
    unfolding sy_def sh_def using fl [of 10 a] fu fl [of 4 "snd (mulberry32 a)"] by linarith+
  have syr: "0 \<le> sy" "sy < WORLD_HEIGHT"
    using sy g by (auto simp: WORLD_HEIGHT_def)
  have dirt: "layerTile_main g sy = DIRT"
    using sy by (simp add: layerTile_main_def)
  have run: "cell (generateWorld_main seed mr w) sy 0 =
      (if mr 0 < 0.1 then STONE else DIRT)" if wf: "wellFormed w" for mr w
  proof -
    obtain v1 a1 k1 where st: "genColumn_main hs mr 0 (w, a, 0) = (v1, a1, k1)"
      by (cases "genColumn_main hs mr 0 (w, a, 0)") auto
    have x0: "(0::int) \<le> 0" "(0::int) < WORLD_WIDTH" and g0: "0 \<le> hs ! nat 0"
      using g by (simp_all add: WORLD_WIDTH_def g_def)
    note cells = genColumn_main_cells [OF wf x0 g0, of mr a 0]
    from cells have wf1: "wellFormed v1"
      unfolding st by simp
    from cells syr have "cell v1 sy 0 =
        (if mr 0 < 0.1 \<and> sy \<le> sy \<and> sy < sy + sh \<and> layerTile_main g sy \<noteq> AIR
         then STONE else layerTile_main g sy)"
      unfolding st by (simp add: g_def sy_def sh_def)
    then have c1: "cell v1 sy 0 = (if mr 0 < 0.1 then STONE else DIRT)"
      using sy(3) by (simp add: dirt)
    have "generateWorld_main seed mr w = fst (genColumns_main hs mr 0 (w, a, 0))"
      by (simp add: generateWorld_main_def Let_def split_beta hs_def heightsOf_def a_def)
    also have "\<dots> = fst (genColumns_main hs mr (0 + 1) (v1, a1, k1))"
      by (subst genColumns_main.simps) (simp add: st WORLD_WIDTH_def)
    finally have "cell (generateWorld_main seed mr w) sy 0 = cell v1 sy 0"
      using genColumns_main_frame [OF wf1 _ ok, of "0 + 1" mr a1 k1] syr
      by (simp add: WORLD_WIDTH_def)
    with c1 show ?thesis by simp
  qed
  have "cell (generateWorld_main seed (\<lambda>k. 1 / 20) w1) sy 0 = STONE"
    and "cell (generateWorld_main seed (\<lambda>k. 1 / 2) w2) sy 0 = DIRT"
    by (simp_all add: run w1 w2)
  then show ?thesis by auto
qed

text \<open>
  C1 on the code of \<^verbatim>\<open>main.js\<close>. With the seed 1337, a call in which
  \<^verbatim>\<open>Math.random()\<close> returns 0.05 and a call in which it returns 0.5 produce
  different grids, whether both start from the empty grid of the module or the second
  runs on the grid the first has left: the stone patches are placed by
  \<^verbatim>\<open>Math.random() < 0.1\<close>. (The later \<open>generateWorld\<close> draws that decision from
  the seeded stream and is reproducible: \<open>generateWorld_deterministic\<close>,
  \<open>generateWorld_twice\<close>.)
\<close>

theorem generateWorld_main_not_reproducible:
  "generateWorld_main 1337 (\<lambda>k. 1 / 20) emptyWorld \<noteq> generateWorld_main 1337 (\<lambda>k. 1 / 2) emptyWorld \<and>
   generateWorld_main 1337 (\<lambda>k. 1 / 20) emptyWorld \<noteq>
     generateWorld_main 1337 (\<lambda>k. 1 / 2) (generateWorld_main 1337 (\<lambda>k. 1 / 20) emptyWorld)"
  by (intro conjI generateWorld_main_unseeded generateWorld_main_wellFormed wellFormed_emptyWorld)


end
